theory Spec2Isabelle
  imports Main "HOL-Library.Mapping" "HOL-Library.AList_Mapping" "HOL-Library.Sublist"
begin

section \<open>The selection plugin of the tree view\<close>

text \<open>
  The development follows \<^verbatim>\<open>useTreeViewSelection.ts\<close>. The plugin keeps two refs,
  \<^verbatim>\<open>lastSelectedItem\<close> and \<^verbatim>\<open>lastSelectedRange\<close>, reads the model value
  \<^verbatim>\<open>models.selectedItems.value\<close> and hands every new value to \<^verbatim>\<open>setSelectedItems\<close>,
  which calls the two optional callbacks of the host and then stores the value.

  The \<^verbatim>\<open>event\<close> argument is opaque to the plugin and is passed on unchanged; it is left out.
  Each operation is taken to run on the current model value, that is, after the render that
  followed the previous operation. The model is taken to store the value that
  \<^verbatim>\<open>setControlledValue\<close> receives: the tree is uncontrolled, or its host stores what
  \<^verbatim>\<open>onSelectedItemsChange\<close> hands it. A callback is taken to return normally.
\<close>

subsection \<open>Data\<close>

type_synonym item_id = string

text \<open>The run-time shapes of \<^verbatim>\<open>models.selectedItems.value\<close>: \<^verbatim>\<open>string[] | string | null\<close>.\<close>

datatype selected_items = Null | Scalar item_id | Array "item_id list"

text \<open>
  The parameters the plugin reads. A callback is host code; the record says whether it is
  configured, and each invocation is recorded in the state.
\<close>

record params =
  disableSelection :: bool
  multiSelect :: bool
  onSelectedItemsChange :: bool
  onItemSelectionToggle :: bool

text \<open>
  A callback invocation. The first argument of \<^verbatim>\<open>onItemSelectionToggle\<close> is an item id in
  multi-select mode; in single-select mode it is the model value under the cast
  \<^verbatim>\<open>as string\<close>, which converts nothing, so the argument has the type of the model value.
\<close>

datatype notification =
    ItemSelectionToggle selected_items bool
  | SelectedItemsChange selected_items

text \<open>
  \<^verbatim>\<open>lastSelectedRange\<close> has the type \<^verbatim>\<open>{ [itemId: string]: boolean }\<close> and holds a plain
  JavaScript object, made by \<^verbatim>\<open>{}\<close> or an object literal. The mapping holds the own
  properties of the object; what the object inherits is in \<open>objectPrototypeNames\<close> below.
\<close>

type_synonym lookup = "(item_id, bool) mapping"

text \<open>The triple (Anchor, LastRangeLookup, SelectionValue) as a callback finds it.\<close>

type_synonym session = "item_id option \<times> lookup \<times> selected_items"

record state =
  lastSelectedItem :: "item_id option"
  lastSelectedRange :: lookup
  selectedItems :: selected_items
  calls :: "(notification \<times> session) list"

definition triple :: "state \<Rightarrow> session" where
  "triple s = (lastSelectedItem s, lastSelectedRange s, selectedItems s)"

definition notifications :: "state \<Rightarrow> notification list" where
  "notifications s = map fst (calls s)"

datatype error = TypeError

text \<open>
  An exception leaves the refs as they are when it is thrown, so it carries the state.
\<close>

type_synonym result = "(error \<times> state) + state"

subsection \<open>The adapters of the selection model\<close>

text \<open>
  Modelled from the spec: \<^verbatim>\<open>convertSelectedItemsToArray\<close> of
  \<^verbatim>\<open>useTreeViewSelection.utils\<close> is not among the sources. Section 4.4: the adapters
  normalise between the scalar and the sequence shape of the value and handle null uniformly.
\<close>

definition convertSelectedItemsToArray :: "selected_items \<Rightarrow> item_id list" where
  "convertSelectedItemsToArray model =
     (case model of Array xs \<Rightarrow> xs | Scalar x \<Rightarrow> [x] | Null \<Rightarrow> [])"

text \<open>
  Modelled from the spec: \<^verbatim>\<open>getLookupFromArray\<close> of \<^verbatim>\<open>useTreeViewSelection.utils\<close> is
  not among the sources. Section 4.4 (lookup construction): the dictionary whose keys are the
  ids of the array, each with the value true.
\<close>

definition getLookupFromArray :: "item_id list \<Rightarrow> lookup" where
  "getLookupFromArray array =
     fold (\<lambda>itemId lookup. Mapping.update itemId True lookup) array Mapping.empty"

text \<open>
  The property names a plain object inherits from \<^verbatim>\<open>Object.prototype\<close>. Each inherited
  value is a function, or for \<^verbatim>\<open>__proto__\<close> the prototype object, so each counts as true in
  a test.
\<close>

definition objectPrototypeNames :: "item_id list" where
  "objectPrototypeNames =
     [''constructor'', ''__defineGetter__'', ''__defineSetter__'', ''hasOwnProperty'',
      ''__lookupGetter__'', ''__lookupSetter__'', ''isPrototypeOf'', ''propertyIsEnumerable'',
      ''toString'', ''valueOf'', ''__proto__'', ''toLocaleString'']"

text \<open>
  The test \<^verbatim>\<open>lookup[id]\<close> of lines 106, 112, 160 and 164: an own property gives its value,
  and without an own property the lookup goes on to the prototype.
\<close>

definition inLookup :: "lookup \<Rightarrow> item_id \<Rightarrow> bool" where
  "inLookup m itemId =
     (case Mapping.lookup m itemId of
        Some b \<Rightarrow> b
      | None \<Rightarrow> itemId \<in> set objectPrototypeNames)"

text \<open>
  The assignment \<^verbatim>\<open>lookup[id] = true\<close> of line 169. It writes an own property, also over an
  inherited function. For \<^verbatim>\<open>__proto__\<close> without an own property it calls the inherited
  setter, which ignores a value that is neither an object nor null.
\<close>

definition assignTrue :: "item_id \<Rightarrow> lookup \<Rightarrow> lookup" where
  "assignTrue itemId m =
     (if itemId = ''__proto__'' \<and> itemId \<notin> Mapping.keys m then m
      else Mapping.update itemId True m)"

subsection \<open>The selected set\<close>

text \<open>Lines 22 to 33: the memoised \<^verbatim>\<open>Map\<close> built from the model value.\<close>

definition selectedItemsMap :: "selected_items \<Rightarrow> (item_id, bool) mapping" where
  "selectedItemsMap v =
     (case v of
        Array xs \<Rightarrow> fold (\<lambda>itemId temp. Mapping.update itemId True temp) xs Mapping.empty
      | Scalar x \<Rightarrow> Mapping.update x True Mapping.empty
      | Null \<Rightarrow> Mapping.empty)"

text \<open>Line 72: \<^verbatim>\<open>selectedItemsMap.has(itemId)\<close>.\<close>

definition isItemSelected :: "state \<Rightarrow> item_id \<Rightarrow> bool" where
  "isItemSelected s itemId = (Mapping.lookup (selectedItemsMap (selectedItems s)) itemId \<noteq> None)"

text \<open>
  The reading of the specification: an id appears in a selection value when it is the scalar
  or an element of the sequence.
\<close>

definition appearsIn :: "item_id \<Rightarrow> selected_items \<Rightarrow> bool" where
  "appearsIn itemId v =
     (case v of Null \<Rightarrow> False | Scalar x \<Rightarrow> itemId = x | Array xs \<Rightarrow> itemId \<in> set xs)"

subsection \<open>Notifying and storing a new value\<close>

definition emit :: "notification \<Rightarrow> state \<Rightarrow> state" where
  "emit n s = s\<lparr>calls := calls s @ [(n, triple s)]\<rparr>"

text \<open>
  \<^verbatim>\<open>newSelectedItems !== models.selectedItems.value\<close>: strings compare by content and null is
  identical to null. An array is identical only to itself, and the single-select branch is
  reached from \<^verbatim>\<open>selectItem\<close> alone, whose arrays are fresh results of \<^verbatim>\<open>filter\<close> or
  \<^verbatim>\<open>concat\<close>.
\<close>

definition strictNotEqual :: "selected_items \<Rightarrow> selected_items \<Rightarrow> bool" where
  "strictNotEqual a b =
     (case (a, b) of
        (Null, Null) \<Rightarrow> False
      | (Scalar x, Scalar y) \<Rightarrow> x \<noteq> y
      | _ \<Rightarrow> True)"

text \<open>
  Lines 35 to 70. In multi-select mode both values are used as arrays: \<^verbatim>\<open>filter\<close> on null or
  on a string throws a TypeError, before any callback has run.
\<close>

definition setSelectedItems :: "params \<Rightarrow> selected_items \<Rightarrow> state \<Rightarrow> result" where
  "setSelectedItems params newSelectedItems s =
     (case
        (if onItemSelectionToggle params then
           (if multiSelect params then
              (case (newSelectedItems, selectedItems s) of
                 (Array new, Array old) \<Rightarrow>
                   (let addedItems = filter (\<lambda>itemId. \<not> isItemSelected s itemId) new;
                        removedItems = filter (\<lambda>itemId. itemId \<notin> set new) old;
                        s1 = fold (\<lambda>itemId. emit (ItemSelectionToggle (Scalar itemId) True))
                               addedItems s;
                        s2 = fold (\<lambda>itemId. emit (ItemSelectionToggle (Scalar itemId) False))
                               removedItems s1
                    in Inr s2)
               | _ \<Rightarrow> Inl (TypeError, s))
            else if strictNotEqual newSelectedItems (selectedItems s) then
              (let s1 = (if selectedItems s \<noteq> Null
                         then emit (ItemSelectionToggle (selectedItems s) False) s else s);
                   s2 = (if newSelectedItems \<noteq> Null
                         then emit (ItemSelectionToggle newSelectedItems True) s1 else s1)
               in Inr s2)
            else Inr s)
         else Inr s)
      of
        Inl e \<Rightarrow> Inl e
      | Inr s2 \<Rightarrow>
          (let s3 = (if onSelectedItemsChange params
                     then emit (SelectedItemsChange newSelectedItems) s2 else s2)
           in Inr (s3\<lparr>selectedItems := newSelectedItems\<rparr>)))"

subsection \<open>Selecting one item\<close>

text \<open>Lines 74 to 94.\<close>

definition selectItem :: "params \<Rightarrow> item_id \<Rightarrow> bool \<Rightarrow> state \<Rightarrow> result" where
  "selectItem params itemId multiple s =
     (if disableSelection params then Inr s
      else
        (let newSelected =
               (if multiple then
                  (let cleanSelectedItems = convertSelectedItemsToArray (selectedItems s)
                   in if isItemSelected s itemId
                      then Array (filter (\<lambda>id'. id' \<noteq> itemId) cleanSelectedItems)
                      else Array ([itemId] @ cleanSelectedItems))
                else (if multiSelect params then Array [itemId] else Scalar itemId))
         in case setSelectedItems params newSelected s of
              Inl e \<Rightarrow> Inl e
            | Inr s' \<Rightarrow> Inr (s'\<lparr>lastSelectedItem := Some itemId, lastSelectedRange := Mapping.empty\<rparr>)))"

subsection \<open>The tree utilities\<close>

text \<open>
  Modelled from the spec: the module \<^verbatim>\<open>utils/tree\<close> (\<^verbatim>\<open>findOrderInTremauxTree\<close>,
  \<^verbatim>\<open>getAllNavigableItems\<close>, \<^verbatim>\<open>getNonDisabledItemsInRange\<close>) and the tree the
  \<^verbatim>\<open>instance\<close> holds are not among the sources. Section 3: the Tree Index gives each node
  its ordered children, its disabled flag and its expansion flag, and forms a forest; here
  the forest is the list of the root items in document order, and an item is written
  \<open>TreeItem id disabled expanded children\<close>.
\<close>

datatype tree_item = TreeItem item_id bool bool "tree_item list"

type_synonym "instance" = "tree_item list"

text \<open>
  Modelled from the spec: \<^verbatim>\<open>getAllNavigableItems\<close>. Glossary: a node is navigable when it is
  not disabled and visible under the current expansion state; the sequence is in tree order
  (pre-order, siblings in the order of the Tree Index).
\<close>

fun navigableItems :: "tree_item \<Rightarrow> item_id list" where
  "navigableItems (TreeItem itemId disabled expanded children) =
     (if disabled then [] else [itemId])
       @ (if expanded then concat (map navigableItems children) else [])"

definition getAllNavigableItems :: "instance \<Rightarrow> item_id list" where
  "getAllNavigableItems inst = concat (map navigableItems inst)"

text \<open>
  Modelled from the spec: the position of a node, for the Order Oracle of section 4.1. The
  ancestor path of a node, read from the root, is the list of child positions that leads to
  it; the search takes the first node with the id in pre-order, and None says that the id
  is absent from the Tree Index.
\<close>

fun pathInItem :: "item_id \<Rightarrow> tree_item \<Rightarrow> nat list option"
  and pathInItems :: "item_id \<Rightarrow> nat \<Rightarrow> tree_item list \<Rightarrow> nat list option" where
  "pathInItem x (TreeItem itemId disabled expanded children) =
     (if x = itemId then Some [] else pathInItems x 0 children)"
| "pathInItems x k [] = None"
| "pathInItems x k (t # ts) =
     (case pathInItem x t of
        Some p \<Rightarrow> Some (k # p)
      | None \<Rightarrow> pathInItems x (Suc k) ts)"

text \<open>
  Modelled from the spec: the comparison of section 4.1. The common prefix of two paths ends at
  the lowest common ancestor; below it the diverging child positions decide, and an ancestor
  precedes its descendants.
\<close>

fun precedes :: "nat list \<Rightarrow> nat list \<Rightarrow> bool" where
  "precedes [] q = True"
| "precedes (i # p) [] = False"
| "precedes (i # p) (j # q) = (if i = j then precedes p q else i < j)"

text \<open>
  Modelled from the spec: \<^verbatim>\<open>findOrderInTremauxTree\<close>, the Order Oracle. The pair comes back
  in pre-order; there is no result when an id is absent from the Tree Index.
\<close>

definition findOrderInTremauxTree ::
  "instance \<Rightarrow> item_id \<Rightarrow> item_id \<Rightarrow> (item_id \<times> item_id) option" where
  "findOrderInTremauxTree inst itemAId itemBId =
     (case (pathInItems itemAId 0 inst, pathInItems itemBId 0 inst) of
        (Some p, Some q) \<Rightarrow> Some (if precedes p q then (itemAId, itemBId) else (itemBId, itemAId))
      | _ \<Rightarrow> None)"

text \<open>
  Modelled from the spec: \<^verbatim>\<open>getNonDisabledItemsInRange\<close>, the Range Extractor of section 4.2.
  The bounds are put in document order by the Order Oracle, and the range is the part of the
  navigable sequence from the first bound to the second, both included when navigable. An id
  absent from the Tree Index gives the empty sequence.
\<close>

definition isBetween :: "instance \<Rightarrow> item_id \<Rightarrow> item_id \<Rightarrow> item_id \<Rightarrow> bool" where
  "isBetween inst firstId lastId itemId =
     (case (pathInItems firstId 0 inst, pathInItems lastId 0 inst, pathInItems itemId 0 inst) of
        (Some pf, Some pl, Some p) \<Rightarrow> precedes pf p \<and> precedes p pl
      | _ \<Rightarrow> False)"

definition getNonDisabledItemsInRange ::
  "instance \<Rightarrow> item_id \<Rightarrow> item_id \<Rightarrow> item_id list" where
  "getNonDisabledItemsInRange inst itemAId itemBId =
     (case findOrderInTremauxTree inst itemAId itemBId of
        None \<Rightarrow> []
      | Some (firstId, lastId) \<Rightarrow>
          filter (isBetween inst firstId lastId) (getAllNavigableItems inst))"

subsection \<open>Selecting a range\<close>

text \<open>Lines 96 to 117.\<close>

definition selectRange :: "params \<Rightarrow> instance \<Rightarrow> item_id \<times> item_id \<Rightarrow> state \<Rightarrow> result" where
  "selectRange params inst startEnd s =
     (if disableSelection params \<or> \<not> multiSelect params then Inr s
      else
        (let newSelectedItems = convertSelectedItemsToArray (selectedItems s);
             newSelectedItems1 =
               (if \<not> Mapping.is_empty (lastSelectedRange s)
                then filter (\<lambda>id'. \<not> inLookup (lastSelectedRange s) id') newSelectedItems
                else newSelectedItems);
             selectedItemsLookup = getLookupFromArray newSelectedItems1;
             range = getNonDisabledItemsInRange inst (fst startEnd) (snd startEnd);
             itemsToAddToModel = filter (\<lambda>id'. \<not> inLookup selectedItemsLookup id') range;
             newSelectedItems2 = newSelectedItems1 @ itemsToAddToModel
         in case setSelectedItems params (Array newSelectedItems2) s of
              Inl e \<Rightarrow> Inl e
            | Inr s' \<Rightarrow> Inr (s'\<lparr>lastSelectedRange := getLookupFromArray range\<rparr>)))"

subsection \<open>Selecting every navigable item\<close>

text \<open>Lines 134 to 143.\<close>

definition selectAllNavigableItems :: "params \<Rightarrow> instance \<Rightarrow> state \<Rightarrow> result" where
  "selectAllNavigableItems params inst s =
     (if disableSelection params \<or> \<not> multiSelect params then Inr s
      else
        (let navigableItems = getAllNavigableItems inst
         in case setSelectedItems params (Array navigableItems) s of
              Inl e \<Rightarrow> Inl e
            | Inr s' \<Rightarrow> Inr (s'\<lparr>lastSelectedRange := getLookupFromArray navigableItems\<rparr>)))"

subsection \<open>Extending the selection by one arrow step\<close>

text \<open>
  Lines 145 to 174. The dictionary in \<^verbatim>\<open>lastSelectedRange.current\<close> is replaced or changed in
  place before \<^verbatim>\<open>setSelectedItems\<close> runs; no other reference to it exists. The object
  literal of line 158 has computed keys, which are own properties whatever their names.
\<close>

definition selectItemFromArrowNavigation ::
  "params \<Rightarrow> item_id \<Rightarrow> item_id \<Rightarrow> state \<Rightarrow> result" where
  "selectItemFromArrowNavigation params currentItem nextItem s =
     (if disableSelection params \<or> \<not> multiSelect params then Inr s
      else
        (let newSelectedItems = convertSelectedItemsToArray (selectedItems s);
             (newSelectedItems1, s2) =
               (if Mapping.is_empty (lastSelectedRange s) then
                  (newSelectedItems @ [nextItem],
                   s\<lparr>lastSelectedRange :=
                       Mapping.update nextItem True
                         (Mapping.update currentItem True Mapping.empty)\<rparr>)
                else
                  (let s1 = (if \<not> inLookup (lastSelectedRange s) currentItem
                             then s\<lparr>lastSelectedRange := Mapping.empty\<rparr> else s)
                   in if inLookup (lastSelectedRange s1) nextItem then
                        (filter (\<lambda>id'. id' \<noteq> currentItem) newSelectedItems,
                         s1\<lparr>lastSelectedRange := Mapping.delete currentItem (lastSelectedRange s1)\<rparr>)
                      else
                        (newSelectedItems @ [nextItem],
                         s1\<lparr>lastSelectedRange := assignTrue nextItem (lastSelectedRange s1)\<rparr>)))
         in setSelectedItems params (Array newSelectedItems1) s2))"

subsection \<open>The operations of the instance\<close>

text \<open>
  The four functions that call \<^verbatim>\<open>setSelectedItems\<close> themselves. The three other entries of
  the returned \<^verbatim>\<open>instance\<close> (lines 119 to 132) reach it through \<^verbatim>\<open>selectRange\<close>; they
  follow below, \<^verbatim>\<open>expandSelectionRange\<close> with its own guard.
\<close>

datatype operation =
    SelectItem item_id bool
  | SelectRange item_id item_id
  | SelectAllNavigableItems
  | SelectItemFromArrowNavigation item_id item_id

fun run :: "params \<Rightarrow> instance \<Rightarrow> operation \<Rightarrow> state \<Rightarrow> result" where
  "run params inst (SelectItem itemId multiple) s = selectItem params itemId multiple s"
| "run params inst (SelectRange start end') s = selectRange params inst (start, end') s"
| "run params inst SelectAllNavigableItems s = selectAllNavigableItems params inst s"
| "run params inst (SelectItemFromArrowNavigation currentItem nextItem) s =
     selectItemFromArrowNavigation params currentItem nextItem s"

text \<open>The guard at the head of each operation.\<close>

fun shortCircuited :: "params \<Rightarrow> operation \<Rightarrow> bool" where
  "shortCircuited params (SelectItem itemId multiple) = disableSelection params"
| "shortCircuited params op = (disableSelection params \<or> \<not> multiSelect params)"

subsection \<open>The entries that go through selectRange\<close>

text \<open>
  Modelled from the spec: \<^verbatim>\<open>getFirstNavigableItem\<close> and \<^verbatim>\<open>getLastNavigableItem\<close> of
  \<^verbatim>\<open>utils/tree\<close> are not among the sources. Section 6: \<^verbatim>\<open>firstNavigableItem()\<close> and
  \<^verbatim>\<open>lastNavigableItem()\<close> give a node id or nothing.
\<close>

definition getFirstNavigableItem :: "instance \<Rightarrow> item_id option" where
  "getFirstNavigableItem inst =
     (case getAllNavigableItems inst of [] \<Rightarrow> None | x # xs \<Rightarrow> Some x)"

definition getLastNavigableItem :: "instance \<Rightarrow> item_id option" where
  "getLastNavigableItem inst =
     (case getAllNavigableItems inst of [] \<Rightarrow> None | x # xs \<Rightarrow> Some (last (x # xs)))"

text \<open>
  Lines 96 to 117 with the result of line 111 given. This is \<^verbatim>\<open>selectRange\<close> on bounds for
  which the tree utilities have no range: a bound that is null, or two ids without an order
  relation. Sections 4.2 and 7: such bounds give the empty sequence and nothing is raised.
  Lemma \<open>selectRange_selectRangeOver\<close> says that \<open>selectRange\<close> is this function on the range
  of its bounds.
\<close>

definition selectRangeOver :: "params \<Rightarrow> item_id list \<Rightarrow> state \<Rightarrow> result" where
  "selectRangeOver params rangeItems s =
     (if disableSelection params \<or> \<not> multiSelect params then Inr s
      else
        (let newSelectedItems = convertSelectedItemsToArray (selectedItems s);
             newSelectedItems1 =
               (if \<not> Mapping.is_empty (lastSelectedRange s)
                then filter (\<lambda>id'. \<not> inLookup (lastSelectedRange s) id') newSelectedItems
                else newSelectedItems);
             selectedItemsLookup = getLookupFromArray newSelectedItems1;
             itemsToAddToModel =
               filter (\<lambda>id'. \<not> inLookup selectedItemsLookup id') rangeItems;
             newSelectedItems2 = newSelectedItems1 @ itemsToAddToModel
         in case setSelectedItems params (Array newSelectedItems2) s of
              Inl e \<Rightarrow> Inl e
            | Inr s' \<Rightarrow> Inr (s'\<lparr>lastSelectedRange := getLookupFromArray rangeItems\<rparr>)))"

text \<open>Lines 119 to 124.\<close>

definition expandSelectionRange :: "params \<Rightarrow> instance \<Rightarrow> item_id \<Rightarrow> state \<Rightarrow> result" where
  "expandSelectionRange params inst itemId s =
     (case lastSelectedItem s of
        None \<Rightarrow> Inr s
      | Some anchor \<Rightarrow>
          (case findOrderInTremauxTree inst itemId anchor of
             Some (start, end') \<Rightarrow> selectRange params inst (start, end') s
           | None \<Rightarrow> selectRangeOver params [] s))"

text \<open>Lines 126 to 128.\<close>

definition selectRangeFromStartToItem ::
  "params \<Rightarrow> instance \<Rightarrow> item_id \<Rightarrow> state \<Rightarrow> result" where
  "selectRangeFromStartToItem params inst itemId s =
     (case getFirstNavigableItem inst of
        Some firstId \<Rightarrow> selectRange params inst (firstId, itemId) s
      | None \<Rightarrow> selectRangeOver params [] s)"

text \<open>Lines 130 to 132.\<close>

definition selectRangeFromItemToEnd ::
  "params \<Rightarrow> instance \<Rightarrow> item_id \<Rightarrow> state \<Rightarrow> result" where
  "selectRangeFromItemToEnd params inst itemId s =
     (case getLastNavigableItem inst of
        Some lastId \<Rightarrow> selectRange params inst (itemId, lastId) s
      | None \<Rightarrow> selectRangeOver params [] s)"

text \<open>
  The calls that change the selection: the six entries of the returned \<^verbatim>\<open>instance\<close> other
  than \<^verbatim>\<open>isItemSelected\<close> (lines 182 to 187), and \<^verbatim>\<open>selectRange\<close>, which the instance does
  not export and three of the entries call.
\<close>

datatype instanceCall =
    Direct operation
  | ExpandSelectionRange item_id
  | SelectRangeFromStartToItem item_id
  | SelectRangeFromItemToEnd item_id

fun call :: "params \<Rightarrow> instance \<Rightarrow> instanceCall \<Rightarrow> state \<Rightarrow> result" where
  "call params inst (Direct op) s = run params inst op s"
| "call params inst (ExpandSelectionRange itemId) s = expandSelectionRange params inst itemId s"
| "call params inst (SelectRangeFromStartToItem itemId) s =
     selectRangeFromStartToItem params inst itemId s"
| "call params inst (SelectRangeFromItemToEnd itemId) s =
     selectRangeFromItemToEnd params inst itemId s"

text \<open>
  The guards that end a call before any value is computed: selection disabled or the wrong
  mode (lines 75, 97, 135 and 150), and for \<^verbatim>\<open>expandSelectionRange\<close> also an anchor that is
  not set (line 120).
\<close>

fun skipped :: "params \<Rightarrow> instanceCall \<Rightarrow> state \<Rightarrow> bool" where
  "skipped params (Direct op) s = shortCircuited params op"
| "skipped params (ExpandSelectionRange itemId) s =
     (lastSelectedItem s = None \<or> disableSelection params \<or> \<not> multiSelect params)"
| "skipped params (SelectRangeFromStartToItem itemId) s =
     (disableSelection params \<or> \<not> multiSelect params)"
| "skipped params (SelectRangeFromItemToEnd itemId) s =
     (disableSelection params \<or> \<not> multiSelect params)"

subsection \<open>Summaries used in the proofs\<close>

text \<open>
  The arguments of the callbacks, in call order, that \<^verbatim>\<open>setSelectedItems\<close> produces: lines
  41 to 54 and 65 to 67 in multi-select mode, lines 55 to 67 in single-select mode.
\<close>

definition multiNotes :: "params \<Rightarrow> item_id list \<Rightarrow> item_id list \<Rightarrow> notification list" where
  "multiNotes params old new =
     (if onItemSelectionToggle params
      then map (\<lambda>itemId. ItemSelectionToggle (Scalar itemId) True)
             (filter (\<lambda>itemId. itemId \<notin> set old) new)
           @ map (\<lambda>itemId. ItemSelectionToggle (Scalar itemId) False)
               (filter (\<lambda>itemId. itemId \<notin> set new) old)
      else [])
     @ (if onSelectedItemsChange params then [SelectedItemsChange (Array new)] else [])"

definition singleNotes :: "params \<Rightarrow> selected_items \<Rightarrow> selected_items \<Rightarrow> notification list" where
  "singleNotes params old new =
     (if onItemSelectionToggle params \<and> strictNotEqual new old
      then (if old \<noteq> Null then [ItemSelectionToggle old False] else [])
           @ (if new \<noteq> Null then [ItemSelectionToggle new True] else [])
      else [])
     @ (if onSelectedItemsChange params then [SelectedItemsChange new] else [])"

text \<open>
  The value each function hands to \<^verbatim>\<open>setSelectedItems\<close>: lines 79 to 89 of
  \<^verbatim>\<open>selectItem\<close>, lines 101 to 113 of \<^verbatim>\<open>selectRange\<close> for a given range, and lines 154 to
  171 of the arrow step, with the lookup the arrow step leaves.
\<close>

definition selectItemValue :: "params \<Rightarrow> item_id \<Rightarrow> bool \<Rightarrow> state \<Rightarrow> selected_items" where
  "selectItemValue params itemId multiple s =
     (if multiple
      then (if isItemSelected s itemId
            then Array (filter (\<lambda>id'. id' \<noteq> itemId) (convertSelectedItemsToArray (selectedItems s)))
            else Array ([itemId] @ convertSelectedItemsToArray (selectedItems s)))
      else (if multiSelect params then Array [itemId] else Scalar itemId))"

definition selectRangeValue :: "lookup \<Rightarrow> item_id list \<Rightarrow> item_id list \<Rightarrow> item_id list" where
  "selectRangeValue r cur rangeItems =
     (let kept = (if \<not> Mapping.is_empty r then filter (\<lambda>id'. \<not> inLookup r id') cur else cur)
      in kept @ filter (\<lambda>id'. \<not> inLookup (getLookupFromArray kept) id') rangeItems)"

definition arrowLookup :: "lookup \<Rightarrow> item_id \<Rightarrow> item_id \<Rightarrow> lookup" where
  "arrowLookup r currentItem nextItem =
     (if Mapping.is_empty r
      then Mapping.update nextItem True (Mapping.update currentItem True Mapping.empty)
      else (let r1 = (if \<not> inLookup r currentItem then Mapping.empty else r)
            in if inLookup r1 nextItem then Mapping.delete currentItem r1
               else assignTrue nextItem r1))"

definition arrowValue :: "lookup \<Rightarrow> item_id list \<Rightarrow> item_id \<Rightarrow> item_id \<Rightarrow> item_id list" where
  "arrowValue r cur currentItem nextItem =
     (if Mapping.is_empty r then cur @ [nextItem]
      else (let r1 = (if \<not> inLookup r currentItem then Mapping.empty else r)
            in if inLookup r1 nextItem then filter (\<lambda>id'. id' \<noteq> currentItem) cur
               else cur @ [nextItem]))"

text \<open>The range a call through \<^verbatim>\<open>selectRange\<close> works on, and the value every call computes.\<close>

fun rangeOfCall :: "instance \<Rightarrow> instanceCall \<Rightarrow> state \<Rightarrow> item_id list" where
  "rangeOfCall inst (Direct (SelectRange start end')) s =
     getNonDisabledItemsInRange inst start end'"
| "rangeOfCall inst (ExpandSelectionRange itemId) s =
     (case lastSelectedItem s of
        None \<Rightarrow> []
      | Some anchor \<Rightarrow>
          (case findOrderInTremauxTree inst itemId anchor of
             Some (start, end') \<Rightarrow> getNonDisabledItemsInRange inst start end'
           | None \<Rightarrow> []))"
| "rangeOfCall inst (SelectRangeFromStartToItem itemId) s =
     (case getFirstNavigableItem inst of
        Some firstId \<Rightarrow> getNonDisabledItemsInRange inst firstId itemId
      | None \<Rightarrow> [])"
| "rangeOfCall inst (SelectRangeFromItemToEnd itemId) s =
     (case getLastNavigableItem inst of
        Some lastId \<Rightarrow> getNonDisabledItemsInRange inst itemId lastId
      | None \<Rightarrow> [])"
| "rangeOfCall inst (Direct op) s = []"

fun computedValue :: "params \<Rightarrow> instance \<Rightarrow> instanceCall \<Rightarrow> state \<Rightarrow> selected_items" where
  "computedValue params inst (Direct (SelectItem itemId multiple)) s =
     selectItemValue params itemId multiple s"
| "computedValue params inst (Direct SelectAllNavigableItems) s =
     Array (getAllNavigableItems inst)"
| "computedValue params inst (Direct (SelectItemFromArrowNavigation currentItem nextItem)) s =
     Array (arrowValue (lastSelectedRange s) (convertSelectedItemsToArray (selectedItems s))
              currentItem nextItem)"
| "computedValue params inst c s =
     Array (selectRangeValue (lastSelectedRange s) (convertSelectedItemsToArray (selectedItems s))
              (rangeOfCall inst c s))"

text \<open>Operations one after the other; a throw ends the sequence.\<close>

fun runs :: "params \<Rightarrow> instance \<Rightarrow> operation list \<Rightarrow> state \<Rightarrow> result" where
  "runs params inst [] s = Inr s"
| "runs params inst (op # ops) s =
     (case run params inst op s of Inl e \<Rightarrow> Inl e | Inr s' \<Rightarrow> runs params inst ops s')"

text \<open>
  The typing of the model value: in multi-select mode it is declared \<^verbatim>\<open>string[]\<close>.
\<close>

definition multiValueIsArray :: "params \<Rightarrow> state \<Rightarrow> bool" where
  "multiValueIsArray params s =
     (if multiSelect params
      then (case selectedItems s of Array xs \<Rightarrow> True | Scalar x \<Rightarrow> False | Null \<Rightarrow> False)
      else True)"

text \<open>The stored values of a lookup are all true: every write of the plugin stores true.\<close>

definition allTrue :: "lookup \<Rightarrow> bool" where
  "allTrue m = (\<forall>itemId \<in> Mapping.keys m. Mapping.lookup m itemId = Some True)"

text \<open>Ids none of which is an inherited property name.\<close>

definition plainIds :: "item_id list \<Rightarrow> bool" where
  "plainIds xs = (\<forall>itemId \<in> set xs. itemId \<notin> set objectPrototypeNames)"

subsection \<open>Example inputs\<close>

text \<open>
  The state of a tree that has just mounted with the given model value, and the tree of the
  test \<^emph>\<open>should not crash when selecting multiple items in a deeply nested tree\<close>, all
  branches expanded.
\<close>

definition mounted :: "selected_items \<Rightarrow> state" where
  "mounted v =
     \<lparr>lastSelectedItem = None, lastSelectedRange = Mapping.empty, selectedItems = v, calls = []\<rparr>"

definition multiParams :: params where
  "multiParams =
     \<lparr>disableSelection = False, multiSelect = True,
      onSelectedItemsChange = True, onItemSelectionToggle = True\<rparr>"

definition singleParams :: params where
  "singleParams =
     \<lparr>disableSelection = False, multiSelect = False,
      onSelectedItemsChange = True, onItemSelectionToggle = True\<rparr>"

definition disabledParams :: params where
  "disabledParams =
     \<lparr>disableSelection = True, multiSelect = True,
      onSelectedItemsChange = True, onItemSelectionToggle = True\<rparr>"

definition nestedTree :: "instance" where
  "nestedTree =
     [TreeItem ''1'' False True
        [TreeItem ''1.1'' False True [TreeItem ''1.1.1'' False True []]],
      TreeItem ''2'' False True []]"

text \<open>
  The state after a click on 1.1.1 and a shift-click on 1: the range from 1 to 1.1.1 is selected.
\<close>

definition afterShiftClick :: state where
  "afterShiftClick =
     \<lparr>lastSelectedItem = Some ''1.1.1'',
      lastSelectedRange = getLookupFromArray [''1'', ''1.1'', ''1.1.1''],
      selectedItems = Array [''1.1.1'', ''1'', ''1.1''],
      calls = []\<rparr>"

text \<open>
  The state after a click on 1 and two arrow steps with shift, from 1 to 2 and from 2 to 3.
\<close>

definition afterThreeSteps :: state where
  "afterThreeSteps =
     \<lparr>lastSelectedItem = Some ''1'',
      lastSelectedRange = getLookupFromArray [''1'', ''2'', ''3''],
      selectedItems = Array [''1'', ''2'', ''3''],
      calls = []\<rparr>"


text \<open>The invocations of \<^verbatim>\<open>onSelectedItemsChange\<close> among the notifications.\<close>

fun isSelectedItemsChange :: "notification \<Rightarrow> bool" where
  "isSelectedItemsChange (SelectedItemsChange v) = True"
| "isSelectedItemsChange (ItemSelectionToggle v b) = False"

text \<open>Single-select mode with the item a selected by a click.\<close>

definition selectedA :: state where
  "selectedA =
     \<lparr>lastSelectedItem = Some ''a'', lastSelectedRange = Mapping.empty,
      selectedItems = Scalar ''a'', calls = []\<rparr>"

text \<open>
  A flat tree with an item whose id is \<^verbatim>\<open>toString\<close>, and the state after a click on x, a
  click with the control key on \<^verbatim>\<open>toString\<close> and an arrow step with shift from x to y.
\<close>

definition flatTree :: "instance" where
  "flatTree =
     [TreeItem ''x'' False True [], TreeItem ''y'' False True [],
      TreeItem ''toString'' False True []]"

definition inheritedNameSelected :: state where
  "inheritedNameSelected =
     \<lparr>lastSelectedItem = Some ''toString'',
      lastSelectedRange = Mapping.update ''y'' True (Mapping.update ''x'' True Mapping.empty),
      selectedItems = Array [''toString'', ''x'', ''y''],
      calls = []\<rparr>"

text \<open>The state after a click on 5 and an arrow step with shift from 5 to 6.\<close>

definition rangeFiveSix :: state where
  "rangeFiveSix =
     \<lparr>lastSelectedItem = Some ''5'',
      lastSelectedRange = Mapping.update ''6'' True (Mapping.update ''5'' True Mapping.empty),
      selectedItems = Array [''5'', ''6''],
      calls = []\<rparr>"

text \<open>Multi-select mode with the item 1 selected by a click.\<close>

definition clickedOne :: state where
  "clickedOne =
     \<lparr>lastSelectedItem = Some ''1'', lastSelectedRange = Mapping.empty,
      selectedItems = Array [''1''], calls = []\<rparr>"

subsection \<open>Helper facts\<close>

lemma lookup_fold_update:
  "Mapping.lookup (fold (\<lambda>itemId temp. Mapping.update itemId True temp) xs m) x =
     (if x \<in> set xs then Some True else Mapping.lookup m x)"
  by (induction xs arbitrary: m) (auto simp: Mapping.lookup_update')

lemma isItemSelected_appearsIn: "isItemSelected s itemId = appearsIn itemId (selectedItems s)"
  by (cases "selectedItems s")
    (auto simp: isItemSelected_def appearsIn_def selectedItemsMap_def lookup_fold_update
      Mapping.lookup_update')

lemma getLookupFromArray_apply:
  "Mapping.lookup (getLookupFromArray xs) x = (if x \<in> set xs then Some True else None)"
  by (simp add: getLookupFromArray_def lookup_fold_update)

lemma keys_getLookupFromArray: "Mapping.keys (getLookupFromArray xs) = set xs"
  by (auto simp: keys_dom_lookup dom_def getLookupFromArray_apply)

lemma inLookup_getLookupFromArray:
  "inLookup (getLookupFromArray xs) x = (x \<in> set xs \<or> x \<in> set objectPrototypeNames)"
  by (simp add: inLookup_def getLookupFromArray_apply)

lemma allTrue_getLookupFromArray: "allTrue (getLookupFromArray xs)"
  by (simp add: allTrue_def keys_getLookupFromArray getLookupFromArray_apply)

lemma allTrue_inLookup:
  assumes "allTrue m"
  shows "inLookup m x = (x \<in> Mapping.keys m \<or> x \<in> set objectPrototypeNames)"
proof (cases "Mapping.lookup m x")
  case None
  then have "x \<notin> Mapping.keys m" by (simp add: keys_dom_lookup dom_def)
  with None show ?thesis by (simp add: inLookup_def)
next
  case (Some b)
  then have k: "x \<in> Mapping.keys m" by (auto simp: keys_dom_lookup)
  with assms have "Mapping.lookup m x = Some True" by (simp add: allTrue_def)
  with k show ?thesis by (simp add: inLookup_def)
qed

lemma update_not_empty: "Mapping.update k v m \<noteq> Mapping.empty"
proof
  assume "Mapping.update k v m = Mapping.empty"
  then have "Mapping.is_empty (Mapping.update k v m)" by simp
  then show False by simp
qed

lemma triple_emit: "triple (emit n s) = triple s"
  by (simp add: emit_def triple_def)

lemma fold_emit:
  "fold (\<lambda>x. emit (f x)) xs s = s\<lparr>calls := calls s @ map (\<lambda>x. (f x, triple s)) xs\<rparr>"
proof (induction xs arbitrary: s)
  case Nil
  then show ?case by simp
next
  case (Cons x xs)
  show ?case
    by (simp add: Cons.IH triple_emit) (simp add: emit_def)
qed

lemma setSelectedItems_multi:
  assumes "multiSelect params" and "selectedItems s = Array old"
  shows "setSelectedItems params (Array new) s =
     Inr (s\<lparr>calls := calls s @ map (\<lambda>n. (n, triple s)) (multiNotes params old new),
            selectedItems := Array new\<rparr>)"
  using assms
  by (simp add: setSelectedItems_def Let_def fold_emit emit_def triple_def multiNotes_def
      isItemSelected_appearsIn appearsIn_def comp_def)

lemma setSelectedItems_single:
  assumes "\<not> multiSelect params"
  shows "setSelectedItems params new s =
     Inr (s\<lparr>calls := calls s @ map (\<lambda>n. (n, triple s)) (singleNotes params (selectedItems s) new),
            selectedItems := new\<rparr>)"
  using assms
  by (simp add: setSelectedItems_def Let_def emit_def triple_def singleNotes_def)

lemma selectRangeOver_multi:
  assumes "multiSelect params" and "\<not> disableSelection params" and "selectedItems s = Array cur"
  shows "selectRangeOver params rangeItems s =
     Inr (s\<lparr>calls := calls s @ map (\<lambda>n. (n, triple s))
                 (multiNotes params cur (selectRangeValue (lastSelectedRange s) cur rangeItems)),
            selectedItems := Array (selectRangeValue (lastSelectedRange s) cur rangeItems),
            lastSelectedRange := getLookupFromArray rangeItems\<rparr>)"
  using assms
  by (simp add: selectRangeOver_def selectRangeValue_def Let_def convertSelectedItemsToArray_def
      setSelectedItems_multi)

lemma selectRange_selectRangeOver:
  "selectRange params inst (start, end') s =
     selectRangeOver params (getNonDisabledItemsInRange inst start end') s"
  by (simp add: selectRange_def selectRangeOver_def Let_def)

lemma selectRange_multi:
  assumes "multiSelect params" and "\<not> disableSelection params" and "selectedItems s = Array cur"
  shows "selectRange params inst (start, end') s =
     (let rangeItems = getNonDisabledItemsInRange inst start end';
          new = selectRangeValue (lastSelectedRange s) cur rangeItems
      in Inr (s\<lparr>calls := calls s @ map (\<lambda>n. (n, triple s)) (multiNotes params cur new),
                 selectedItems := Array new,
                 lastSelectedRange := getLookupFromArray rangeItems\<rparr>))"
  using assms
  by (simp add: selectRange_selectRangeOver selectRangeOver_multi Let_def)

lemma selectAllNavigableItems_multi:
  assumes "multiSelect params" and "\<not> disableSelection params" and "selectedItems s = Array cur"
  shows "selectAllNavigableItems params inst s =
     Inr (s\<lparr>calls := calls s @ map (\<lambda>n. (n, triple s))
                 (multiNotes params cur (getAllNavigableItems inst)),
            selectedItems := Array (getAllNavigableItems inst),
            lastSelectedRange := getLookupFromArray (getAllNavigableItems inst)\<rparr>)"
  using assms
  by (simp add: selectAllNavigableItems_def Let_def setSelectedItems_multi)

lemma selectItemFromArrowNavigation_multi:
  assumes "multiSelect params" and "\<not> disableSelection params" and "selectedItems s = Array cur"
  shows "selectItemFromArrowNavigation params currentItem nextItem s =
     (let r = arrowLookup (lastSelectedRange s) currentItem nextItem;
          new = arrowValue (lastSelectedRange s) cur currentItem nextItem
      in Inr (s\<lparr>calls := calls s @ map (\<lambda>n. (n, (lastSelectedItem s, r, Array cur)))
                           (multiNotes params cur new),
                 selectedItems := Array new,
                 lastSelectedRange := r\<rparr>))"
  using assms
  by (simp add: selectItemFromArrowNavigation_def Let_def convertSelectedItemsToArray_def
      setSelectedItems_multi arrowLookup_def arrowValue_def triple_def)


lemma selectItem_multi:
  assumes "multiSelect params" and "\<not> disableSelection params" and "selectedItems s = Array cur"
  shows "selectItem params itemId multiple s =
     (let new = (if multiple
                 then (if itemId \<in> set cur then filter (\<lambda>id'. id' \<noteq> itemId) cur
                       else itemId # cur)
                 else [itemId])
      in Inr (s\<lparr>calls := calls s @ map (\<lambda>n. (n, triple s)) (multiNotes params cur new),
                 selectedItems := Array new,
                 lastSelectedItem := Some itemId,
                 lastSelectedRange := Mapping.empty\<rparr>))"
  using assms
  by (simp add: selectItem_def Let_def convertSelectedItemsToArray_def setSelectedItems_multi
      isItemSelected_appearsIn appearsIn_def)

lemma selectItem_single:
  assumes "\<not> multiSelect params" and "\<not> disableSelection params"
  shows "selectItem params itemId multiple s =
     (let new = (if multiple
                 then (if appearsIn itemId (selectedItems s)
                       then Array (filter (\<lambda>id'. id' \<noteq> itemId)
                                     (convertSelectedItemsToArray (selectedItems s)))
                       else Array (itemId # convertSelectedItemsToArray (selectedItems s)))
                 else Scalar itemId)
      in Inr (s\<lparr>calls := calls s @ map (\<lambda>n. (n, triple s))
                           (singleNotes params (selectedItems s) new),
                 selectedItems := new,
                 lastSelectedItem := Some itemId,
                 lastSelectedRange := Mapping.empty\<rparr>))"
  using assms
  by (simp add: selectItem_def Let_def setSelectedItems_single isItemSelected_appearsIn)

lemmas tree_eval =
  nestedTree_def getNonDisabledItemsInRange_def findOrderInTremauxTree_def isBetween_def
  getAllNavigableItems_def

lemma arrow_fields:
  assumes "multiSelect params" and "\<not> disableSelection params" and "selectedItems s = Array cur"
  shows "\<exists>s'. selectItemFromArrowNavigation params currentItem nextItem s = Inr s' \<and>
     lastSelectedItem s' = lastSelectedItem s \<and>
     lastSelectedRange s' = arrowLookup (lastSelectedRange s) currentItem nextItem \<and>
     selectedItems s' = Array (arrowValue (lastSelectedRange s) cur currentItem nextItem) \<and>
     notifications s' = notifications s @
       multiNotes params cur (arrowValue (lastSelectedRange s) cur currentItem nextItem)"
  using assms
  by (simp add: selectItemFromArrowNavigation_multi Let_def notifications_def comp_def)

lemma run_multi_notes:
  assumes "multiSelect params" and "\<not> disableSelection params" and "selectedItems s = Array old"
  shows "\<exists>s' new. run params inst op s = Inr s' \<and> selectedItems s' = Array new \<and>
     notifications s' = notifications s @ multiNotes params old new"
proof (cases op)
  case (SelectItem itemId multiple)
  with assms show ?thesis
    by (simp add: selectItem_multi Let_def notifications_def comp_def)
next
  case (SelectRange start end')
  with assms show ?thesis
    by (simp add: selectRange_multi Let_def notifications_def comp_def)
next
  case SelectAllNavigableItems
  with assms show ?thesis
    by (simp add: selectAllNavigableItems_multi notifications_def comp_def)
next
  case (SelectItemFromArrowNavigation currentItem nextItem)
  with assms show ?thesis
    by (simp add: selectItemFromArrowNavigation_multi Let_def notifications_def comp_def)
qed

lemma run_single_notes:
  assumes "\<not> multiSelect params" and "\<not> disableSelection params"
  shows "\<exists>s'. run params inst (SelectItem itemId multiple) s = Inr s' \<and>
     notifications s' = notifications s @ singleNotes params (selectedItems s) (selectedItems s')"
  using assms
  by (simp add: selectItem_single Let_def notifications_def comp_def)

lemma run_shortCircuited: "shortCircuited params op \<Longrightarrow> run params inst op s = Inr s"
  by (cases op)
    (auto simp: selectItem_def selectRange_def selectAllNavigableItems_def
      selectItemFromArrowNavigation_def)

lemma filter_change_multiNotes:
  "onSelectedItemsChange params \<Longrightarrow>
     filter isSelectedItemsChange (multiNotes params old new) = [SelectedItemsChange (Array new)]"
  by (simp add: multiNotes_def filter_map comp_def)

lemma filter_change_singleNotes:
  "onSelectedItemsChange params \<Longrightarrow>
     filter isSelectedItemsChange (singleNotes params old new) = [SelectedItemsChange new]"
  by (simp add: singleNotes_def)

lemma precedes_total: "precedes p q \<or> precedes q p"
  by (induction p q rule: precedes.induct) auto

lemma precedes_antisym: "precedes p q \<Longrightarrow> precedes q p \<Longrightarrow> p = q"
proof (induction p q rule: precedes.induct)
  case (1 q)
  then show ?case by (cases q) auto
next
  case (2 i p)
  then show ?case by simp
next
  case (3 i p j q)
  then show ?case by (auto split: if_splits)
qed

lemma pathInItems_head:
  "pathInItems x k ts = Some p \<Longrightarrow> \<exists>j q. p = j # q \<and> k \<le> j"
proof (induction ts arbitrary: k)
  case Nil
  then show ?case by simp
next
  case (Cons t ts)
  show ?case
  proof (cases "pathInItem x t")
    case None
    with Cons.prems have "pathInItems x (Suc k) ts = Some p" by simp
    from Cons.IH [OF this] show ?thesis by auto
  next
    case (Some q)
    with Cons.prems show ?thesis by auto
  qed
qed

lemma path_unique:
  "pathInItem x t = Some p \<Longrightarrow> pathInItem y t = Some p \<Longrightarrow> x = y"
  "pathInItems x k ts = Some p \<Longrightarrow> pathInItems y k ts = Some p \<Longrightarrow> x = y"
proof (induction x t and x k ts arbitrary: p y and p y rule: pathInItem_pathInItems.induct)
  case (1 x itemId disabled expanded children)
  show ?case
  proof (cases "x = itemId")
    case True
    with "1.prems" have p: "p = []" by simp
    show ?thesis
    proof (cases "y = itemId")
      case True
      with \<open>x = itemId\<close> show ?thesis by simp
    next
      case False
      with "1.prems"(2) p have "pathInItems y 0 children = Some []" by simp
      from pathInItems_head [OF this] show ?thesis by simp
    qed
  next
    case False
    with "1.prems"(1) have px: "pathInItems x 0 children = Some p" by simp
    from pathInItems_head [OF px] have "p \<noteq> []" by auto
    with "1.prems"(2) have "y \<noteq> itemId" by auto
    with "1.prems"(2) have py: "pathInItems y 0 children = Some p" by simp
    from "1.IH" [OF False px py] show ?thesis .
  qed
next
  case (2 x k)
  then show ?case by simp
next
  case (3 x k t ts)
  show ?case
  proof (cases "pathInItem x t")
    case None
    with "3.prems"(1) have px: "pathInItems x (Suc k) ts = Some p" by simp
    from pathInItems_head [OF px] obtain j q where p: "p = j # q" "Suc k \<le> j" by auto
    show ?thesis
    proof (cases "pathInItem y t")
      case None
      with "3.prems"(2) have py: "pathInItems y (Suc k) ts = Some p" by simp
      from "3.IH"(2) [OF \<open>pathInItem x t = None\<close> px py] show ?thesis .
    next
      case (Some r)
      with "3.prems"(2) p show ?thesis by simp
    qed
  next
    case (Some r)
    with "3.prems"(1) have p: "p = k # r" by simp
    show ?thesis
    proof (cases "pathInItem y t")
      case None
      with "3.prems"(2) have py: "pathInItems y (Suc k) ts = Some p" by simp
      from pathInItems_head [OF py] p show ?thesis by auto
    next
      case (Some r')
      with "3.prems"(2) p have "r' = r" by simp
      with Some have "pathInItem y t = Some r" by simp
      from "3.IH"(1) [OF \<open>pathInItem x t = Some r\<close> this] show ?thesis .
    qed
  qed
qed

lemma findOrderInTremauxTree_sym:
  "findOrderInTremauxTree inst a b = findOrderInTremauxTree inst b a"
proof (cases "pathInItems a 0 inst")
  case None
  then show ?thesis by (simp add: findOrderInTremauxTree_def split: option.splits)
next
  case pa: (Some p)
  show ?thesis
  proof (cases "pathInItems b 0 inst")
    case None
    then show ?thesis by (simp add: findOrderInTremauxTree_def split: option.splits)
  next
    case pb: (Some q)
    show ?thesis
    proof (cases "a = b")
      case True
      then show ?thesis by simp
    next
      case False
      with path_unique(2) [of a 0 inst p b] pa pb have "p \<noteq> q" by auto
      with precedes_antisym [of p q] precedes_total [of p q]
      have "precedes p q \<longleftrightarrow> \<not> precedes q p" by auto
      with pa pb show ?thesis by (simp add: findOrderInTremauxTree_def)
    qed
  qed
qed

lemma getNonDisabledItemsInRange_sym:
  "getNonDisabledItemsInRange inst a b = getNonDisabledItemsInRange inst b a"
  by (simp add: getNonDisabledItemsInRange_def findOrderInTremauxTree_sym [of inst a b])

lemma run_total:
  assumes "multiValueIsArray params s"
  shows "\<exists>s'. run params inst op s = Inr s' \<and> multiValueIsArray params s'"
proof (cases "shortCircuited params op")
  case True
  with assms show ?thesis by (simp add: run_shortCircuited)
next
  case sc: False
  show ?thesis
  proof (cases "multiSelect params")
    case True
    with assms obtain old where old: "selectedItems s = Array old"
      by (auto simp: multiValueIsArray_def split: selected_items.splits)
    from sc have nd: "\<not> disableSelection params"
      by (cases op) auto
    from run_multi_notes [OF True nd old, of inst op] True show ?thesis
      by (auto simp: multiValueIsArray_def)
  next
    case False
    with sc obtain itemId multiple where op: "op = SelectItem itemId multiple"
      by (cases op) auto
    with sc have nd: "\<not> disableSelection params" by simp
    from run_single_notes [OF False nd, of inst itemId multiple s] False op show ?thesis
      by (auto simp: multiValueIsArray_def)
  qed
qed

lemma callbacks_before_writes:
  assumes "multiValueIsArray params s"
    and "\<And>currentItem nextItem. op \<noteq> SelectItemFromArrowNavigation currentItem nextItem"
  shows "\<exists>s' ns. run params inst op s = Inr s' \<and>
     calls s' = calls s @ map (\<lambda>n. (n, triple s)) ns"
proof (cases "shortCircuited params op")
  case True
  then have "run params inst op s = Inr s \<and> calls s = calls s @ map (\<lambda>n. (n, triple s)) []"
    by (simp add: run_shortCircuited)
  then show ?thesis by blast
next
  case sc: False
  show ?thesis
  proof (cases "multiSelect params")
    case True
    with assms obtain old where old: "selectedItems s = Array old"
      by (auto simp: multiValueIsArray_def split: selected_items.splits)
    from sc have nd: "\<not> disableSelection params"
      by (cases op) auto
    show ?thesis
    proof (cases op)
      case (SelectItem itemId multiple)
      then show ?thesis
        by (simp add: selectItem_multi [OF True nd old] Let_def) blast
    next
      case (SelectRange start end')
      then show ?thesis
        by (simp add: selectRange_multi [OF True nd old] Let_def) blast
    next
      case SelectAllNavigableItems
      then show ?thesis
        by (simp add: selectAllNavigableItems_multi [OF True nd old]) blast
    next
      case (SelectItemFromArrowNavigation currentItem nextItem)
      with assms(2) [of currentItem nextItem] show ?thesis by simp
    qed
  next
    case False
    with sc obtain itemId multiple where op: "op = SelectItem itemId multiple"
      by (cases op) auto
    with sc have nd: "\<not> disableSelection params" by simp
    show ?thesis
      unfolding op by (simp add: selectItem_single [OF False nd] Let_def) blast
  qed
qed

lemma allTrue_empty: "allTrue Mapping.empty"
  by (simp add: allTrue_def)

lemma allTrue_update: "allTrue m \<Longrightarrow> allTrue (Mapping.update k True m)"
  by (simp add: allTrue_def Mapping.lookup_update')

lemma allTrue_assignTrue: "allTrue m \<Longrightarrow> allTrue (assignTrue k m)"
  by (simp add: assignTrue_def allTrue_update)

lemma allTrue_delete: "allTrue m \<Longrightarrow> allTrue (Mapping.delete k m)"
proof -
  assume m: "allTrue m"
  have "Mapping.lookup (Mapping.delete k m) x = Some True"
    if "x \<in> Mapping.keys (Mapping.delete k m)" for x
  proof -
    from that have "x \<noteq> k" and "x \<in> Mapping.keys m" by simp_all
    with m show ?thesis by (simp add: allTrue_def)
  qed
  then show ?thesis by (simp add: allTrue_def)
qed

lemma selectItemFromArrowNavigation_unfold:
  assumes "\<not> (disableSelection params \<or> \<not> multiSelect params)"
  shows "selectItemFromArrowNavigation params currentItem nextItem s =
     setSelectedItems params
       (Array (arrowValue (lastSelectedRange s) (convertSelectedItemsToArray (selectedItems s))
                 currentItem nextItem))
       (s\<lparr>lastSelectedRange := arrowLookup (lastSelectedRange s) currentItem nextItem\<rparr>)"
  using assms
  by (simp add: selectItemFromArrowNavigation_def Let_def arrowLookup_def arrowValue_def)

lemma allTrue_arrowLookup: "allTrue r \<Longrightarrow> allTrue (arrowLookup r currentItem nextItem)"
  by (simp add: arrowLookup_def Let_def allTrue_empty allTrue_update allTrue_delete
      allTrue_assignTrue)

lemma setSelectedItems_lastSelectedRange:
  "setSelectedItems params new s = Inr s' \<Longrightarrow> lastSelectedRange s' = lastSelectedRange s"
  by (auto simp: setSelectedItems_def Let_def fold_emit emit_def
      split: if_splits selected_items.splits)

lemma run_allTrue:
  assumes "allTrue (lastSelectedRange s)" and "run params inst op s = Inr s'"
  shows "allTrue (lastSelectedRange s')"
proof (cases op)
  case (SelectItem itemId multiple)
  with assms show ?thesis
    by (auto simp: selectItem_def Let_def allTrue_empty split: if_splits sum.splits)
next
  case (SelectRange start end')
  with assms show ?thesis
    by (auto simp: selectRange_def Let_def allTrue_getLookupFromArray split: if_splits sum.splits)
next
  case SelectAllNavigableItems
  with assms show ?thesis
    by (auto simp: selectAllNavigableItems_def Let_def allTrue_getLookupFromArray
        split: if_splits sum.splits)
next
  case (SelectItemFromArrowNavigation currentItem nextItem)
  show ?thesis
  proof (cases "disableSelection params \<or> \<not> multiSelect params")
    case True
    with assms SelectItemFromArrowNavigation show ?thesis
      by (simp add: selectItemFromArrowNavigation_def)
  next
    case False
    from assms(2) SelectItemFromArrowNavigation
    have "lastSelectedRange s' = arrowLookup (lastSelectedRange s) currentItem nextItem"
      by (simp add: selectItemFromArrowNavigation_unfold [OF False])
        (drule setSelectedItems_lastSelectedRange, simp)
    with assms(1) show ?thesis by (simp add: allTrue_arrowLookup)
  qed
qed

subsection \<open>The calls of the instance\<close>

lemma call_range:
  assumes "\<not> skipped params c s"
    and "c = Direct (SelectRange start end') \<or> c = ExpandSelectionRange itemId \<or>
         c = SelectRangeFromStartToItem itemId \<or> c = SelectRangeFromItemToEnd itemId"
  shows "call params inst c s = selectRangeOver params (rangeOfCall inst c s) s"
  using assms
  by (auto simp: selectRange_selectRangeOver expandSelectionRange_def
      selectRangeFromStartToItem_def selectRangeFromItemToEnd_def
      split: option.splits prod.splits)

lemma computedValue_range:
  assumes "c = Direct (SelectRange start end') \<or> c = ExpandSelectionRange itemId \<or>
         c = SelectRangeFromStartToItem itemId \<or> c = SelectRangeFromItemToEnd itemId"
  shows "computedValue params inst c s =
     Array (selectRangeValue (lastSelectedRange s) (convertSelectedItemsToArray (selectedItems s))
              (rangeOfCall inst c s))"
  using assms by auto

lemma selectItemValue_multi:
  "multiSelect params \<Longrightarrow> selectedItems s = Array cur \<Longrightarrow>
     selectItemValue params itemId multiple s =
       Array (if multiple
              then (if itemId \<in> set cur then filter (\<lambda>id'. id' \<noteq> itemId) cur else itemId # cur)
              else [itemId])"
  by (simp add: selectItemValue_def isItemSelected_appearsIn appearsIn_def
      convertSelectedItemsToArray_def)

lemma selectItemValue_single:
  "\<not> multiSelect params \<Longrightarrow>
     selectItemValue params itemId multiple s =
       (if multiple
        then (if appearsIn itemId (selectedItems s)
              then Array (filter (\<lambda>id'. id' \<noteq> itemId)
                            (convertSelectedItemsToArray (selectedItems s)))
              else Array (itemId # convertSelectedItemsToArray (selectedItems s)))
        else Scalar itemId)"
  by (simp add: selectItemValue_def isItemSelected_appearsIn)

lemma call_multi_notes:
  assumes "multiSelect params" and "\<not> skipped params c s" and "selectedItems s = Array old"
  shows "\<exists>s' new. call params inst c s = Inr s' \<and> computedValue params inst c s = Array new \<and>
     selectedItems s' = Array new \<and>
     notifications s' = notifications s @ multiNotes params old new"
proof (cases c)
  case (Direct op)
  with assms(2) have nd: "\<not> disableSelection params"
    by (cases op) auto
  show ?thesis
  proof (cases op)
    case (SelectItem itemId multiple)
    with Direct assms nd show ?thesis
      by (simp add: selectItem_multi selectItemValue_multi Let_def notifications_def comp_def)
  next
    case (SelectRange start end')
    with Direct assms nd show ?thesis
      by (simp add: selectRange_multi Let_def notifications_def comp_def
          convertSelectedItemsToArray_def)
  next
    case SelectAllNavigableItems
    with Direct assms nd show ?thesis
      by (simp add: selectAllNavigableItems_multi notifications_def comp_def)
  next
    case (SelectItemFromArrowNavigation currentItem nextItem)
    with Direct assms nd show ?thesis
      by (simp add: selectItemFromArrowNavigation_multi Let_def notifications_def comp_def
          convertSelectedItemsToArray_def)
  qed
next
  case (ExpandSelectionRange itemId)
  with assms(2) have nd: "\<not> disableSelection params" by simp
  from ExpandSelectionRange assms(2)
  have "call params inst c s = selectRangeOver params (rangeOfCall inst c s) s"
    by (intro call_range [where itemId = itemId]) auto
  with ExpandSelectionRange assms(1,3) nd show ?thesis
    by (simp add: selectRangeOver_multi notifications_def comp_def convertSelectedItemsToArray_def)
next
  case (SelectRangeFromStartToItem itemId)
  with assms(2) have nd: "\<not> disableSelection params" by simp
  from SelectRangeFromStartToItem assms(2)
  have "call params inst c s = selectRangeOver params (rangeOfCall inst c s) s"
    by (intro call_range [where itemId = itemId]) auto
  with SelectRangeFromStartToItem assms(1,3) nd show ?thesis
    by (simp add: selectRangeOver_multi notifications_def comp_def convertSelectedItemsToArray_def)
next
  case (SelectRangeFromItemToEnd itemId)
  with assms(2) have nd: "\<not> disableSelection params" by simp
  from SelectRangeFromItemToEnd assms(2)
  have "call params inst c s = selectRangeOver params (rangeOfCall inst c s) s"
    by (intro call_range [where itemId = itemId]) auto
  with SelectRangeFromItemToEnd assms(1,3) nd show ?thesis
    by (simp add: selectRangeOver_multi notifications_def comp_def convertSelectedItemsToArray_def)
qed

lemma call_single_notes:
  assumes "\<not> multiSelect params" and "\<not> skipped params c s"
  shows "\<exists>s'. call params inst c s = Inr s' \<and>
     selectedItems s' = computedValue params inst c s \<and>
     notifications s' =
       notifications s @ singleNotes params (selectedItems s) (computedValue params inst c s)"
proof -
  from assms obtain itemId multiple where c: "c = Direct (SelectItem itemId multiple)"
  proof (cases c)
    case (Direct op)
    with assms that show ?thesis by (cases op) auto
  qed auto
  with assms have nd: "\<not> disableSelection params" by simp
  show ?thesis
    unfolding c using assms(1) nd
    by (simp add: selectItem_single selectItemValue_single Let_def notifications_def comp_def)
qed

lemma call_skipped: "skipped params c s \<Longrightarrow> call params inst c s = Inr s"
proof (cases c)
  case (Direct op)
  assume "skipped params c s"
  with Direct show ?thesis by (simp add: run_shortCircuited)
next
  case (ExpandSelectionRange itemId)
  assume "skipped params c s"
  with ExpandSelectionRange show ?thesis
    by (auto simp: expandSelectionRange_def selectRange_def selectRangeOver_def
        split: option.splits prod.splits)
next
  case (SelectRangeFromStartToItem itemId)
  assume "skipped params c s"
  with SelectRangeFromStartToItem show ?thesis
    by (auto simp: selectRangeFromStartToItem_def selectRange_def selectRangeOver_def
        split: option.splits)
next
  case (SelectRangeFromItemToEnd itemId)
  assume "skipped params c s"
  with SelectRangeFromItemToEnd show ?thesis
    by (auto simp: selectRangeFromItemToEnd_def selectRange_def selectRangeOver_def
        split: option.splits)
qed

lemma expandSelectionRange_anchor:
  assumes "lastSelectedItem s = Some anchor"
  shows "expandSelectionRange params inst itemId s = selectRange params inst (itemId, anchor) s"
proof (cases "findOrderInTremauxTree inst itemId anchor")
  case None
  then have "getNonDisabledItemsInRange inst itemId anchor = []"
    by (simp add: getNonDisabledItemsInRange_def)
  with None assms show ?thesis
    by (simp add: expandSelectionRange_def selectRange_selectRangeOver)
next
  case (Some p)
  obtain start end' where p: "p = (start, end')" by (cases p)
  with Some have "(start, end') = (itemId, anchor) \<or> (start, end') = (anchor, itemId)"
    by (auto simp: findOrderInTremauxTree_def split: option.splits if_splits)
  then have "getNonDisabledItemsInRange inst start end' =
      getNonDisabledItemsInRange inst itemId anchor"
    using getNonDisabledItemsInRange_sym [of inst anchor itemId] by auto
  with Some p assms show ?thesis
    by (simp add: expandSelectionRange_def selectRange_selectRangeOver)
qed

lemma setSelectedItems_change:
  assumes "onSelectedItemsChange params" and "setSelectedItems params v s = Inr s'"
  shows "\<exists>ns. notifications s' = notifications s @ ns \<and>
     filter isSelectedItemsChange ns = [SelectedItemsChange v] \<and> selectedItems s' = v"
proof (cases "multiSelect params \<and> onItemSelectionToggle params")
  case True
  with assms(2) obtain new old where v: "v = Array new" and old: "selectedItems s = Array old"
    by (auto simp: setSelectedItems_def split: selected_items.splits if_splits)
  from True old assms(2) have "s' = s\<lparr>calls := calls s @ map (\<lambda>n. (n, triple s))
        (multiNotes params old new), selectedItems := Array new\<rparr>"
    by (simp add: v setSelectedItems_multi)
  then have "notifications s' = notifications s @ multiNotes params old new"
    and "selectedItems s' = v"
    by (simp_all add: notifications_def comp_def v)
  with assms(1) show ?thesis
    by (simp add: v filter_change_multiNotes)
next
  case False
  show ?thesis
  proof (cases "multiSelect params")
    case True
    with False have nt: "\<not> onItemSelectionToggle params" by simp
    with assms have "s' = s\<lparr>calls := calls s @ [(SelectedItemsChange v, triple s)],
        selectedItems := v\<rparr>"
      by (auto simp: setSelectedItems_def Let_def emit_def)
    then have "notifications s' = notifications s @ [SelectedItemsChange v]"
      and "selectedItems s' = v"
      by (simp_all add: notifications_def)
    then show ?thesis by simp
  next
    case single: False
    with assms(2) have "s' = s\<lparr>calls := calls s @ map (\<lambda>n. (n, triple s))
        (singleNotes params (selectedItems s) v), selectedItems := v\<rparr>"
      by (simp add: setSelectedItems_single)
    then have "notifications s' = notifications s @ singleNotes params (selectedItems s) v"
      and "selectedItems s' = v"
      by (simp_all add: notifications_def comp_def)
    with assms(1) show ?thesis
      by (simp add: filter_change_singleNotes)
  qed
qed

subsection \<open>Ids that are not inherited property names\<close>

text \<open>
  On such ids, and on a lookup whose stored values are all true, the test
  \<^verbatim>\<open>lookup[id]\<close> is membership among the keys, and \<^verbatim>\<open>selectRange\<close> and the arrow step
  do what the specification says of them.
\<close>

lemma plain_inLookup:
  "allTrue m \<Longrightarrow> x \<notin> set objectPrototypeNames \<Longrightarrow> inLookup m x = (x \<in> Mapping.keys m)"
  by (simp add: allTrue_inLookup)

lemma selectRangeValue_plain:
  assumes "allTrue r" and "plainIds cur" and "plainIds rangeItems"
  shows "selectRangeValue r cur rangeItems =
     filter (\<lambda>x. x \<notin> Mapping.keys r) cur
       @ filter (\<lambda>x. x \<notin> set (filter (\<lambda>x. x \<notin> Mapping.keys r) cur)) rangeItems"
proof -
  have kept: "(if \<not> Mapping.is_empty r then filter (\<lambda>id'. \<not> inLookup r id') cur else cur) =
      filter (\<lambda>x. x \<notin> Mapping.keys r) cur"
  proof (cases "Mapping.is_empty r")
    case True
    then show ?thesis by (simp add: Mapping.is_empty_def)
  next
    case False
    have "filter (\<lambda>id'. \<not> inLookup r id') cur = filter (\<lambda>x. x \<notin> Mapping.keys r) cur"
      using assms(1,2) by (intro filter_cong) (auto simp: plainIds_def plain_inLookup)
    with False show ?thesis by simp
  qed
  have added: "filter (\<lambda>id'. \<not> inLookup (getLookupFromArray kept) id') rangeItems =
      filter (\<lambda>x. x \<notin> set kept) rangeItems" for kept
    using assms(3)
    by (intro filter_cong) (auto simp: plainIds_def inLookup_getLookupFromArray)
  show ?thesis
    by (simp add: selectRangeValue_def Let_def kept added)
qed

lemma selectRange_plain_ids:
  assumes "multiSelect params" and "\<not> disableSelection params" and "selectedItems s = Array cur"
    and "allTrue (lastSelectedRange s)" and "plainIds cur"
    and "plainIds (getNonDisabledItemsInRange inst start end')"
  shows "\<exists>s'. selectRange params inst (start, end') s = Inr s' \<and>
     selectedItems s' =
       Array (filter (\<lambda>x. x \<notin> Mapping.keys (lastSelectedRange s)) cur
              @ filter (\<lambda>x. x \<notin> set (filter (\<lambda>x. x \<notin> Mapping.keys (lastSelectedRange s)) cur))
                  (getNonDisabledItemsInRange inst start end')) \<and>
     lastSelectedRange s' = getLookupFromArray (getNonDisabledItemsInRange inst start end') \<and>
     Mapping.keys (lastSelectedRange s') = set (getNonDisabledItemsInRange inst start end') \<and>
     lastSelectedItem s' = lastSelectedItem s"
  using assms
  by (simp add: selectRange_multi Let_def selectRangeValue_plain keys_getLookupFromArray)

lemma arrow_step_plain_ids:
  assumes "multiSelect params" and "\<not> disableSelection params" and "selectedItems s = Array cur"
    and "allTrue (lastSelectedRange s)" and "plainIds [currentItem, nextItem]"
  shows "\<exists>s'. selectItemFromArrowNavigation params currentItem nextItem s = Inr s' \<and>
     lastSelectedItem s' = lastSelectedItem s \<and>
     (if Mapping.is_empty (lastSelectedRange s)
      then selectedItems s' = Array (cur @ [nextItem]) \<and>
           Mapping.keys (lastSelectedRange s') = {currentItem, nextItem}
      else (let r = (if currentItem \<in> Mapping.keys (lastSelectedRange s)
                     then lastSelectedRange s else Mapping.empty)
            in if nextItem \<in> Mapping.keys r
               then selectedItems s' = Array (filter (\<lambda>x. x \<noteq> currentItem) cur) \<and>
                    lastSelectedRange s' = Mapping.delete currentItem r
               else selectedItems s' = Array (cur @ [nextItem]) \<and>
                    lastSelectedRange s' = Mapping.update nextItem True r))"
proof -
  from assms(5) have pc: "currentItem \<notin> set objectPrototypeNames"
    and pn: "nextItem \<notin> set objectPrototypeNames"
    by (simp_all add: plainIds_def)
  from pn have np: "nextItem \<noteq> ''__proto__''"
    by (auto simp: objectPrototypeNames_def)
  obtain s' where s':
    "selectItemFromArrowNavigation params currentItem nextItem s = Inr s'"
    "lastSelectedItem s' = lastSelectedItem s"
    "lastSelectedRange s' = arrowLookup (lastSelectedRange s) currentItem nextItem"
    "selectedItems s' = Array (arrowValue (lastSelectedRange s) cur currentItem nextItem)"
    using arrow_fields [OF assms(1,2,3), of currentItem nextItem] by (elim exE conjE)
  have c: "inLookup (lastSelectedRange s) currentItem =
      (currentItem \<in> Mapping.keys (lastSelectedRange s))"
    using assms(4) pc by (rule plain_inLookup)
  have n: "inLookup (lastSelectedRange s) nextItem =
      (nextItem \<in> Mapping.keys (lastSelectedRange s))"
    using assms(4) pn by (rule plain_inLookup)
  have ne: "\<not> inLookup Mapping.empty nextItem"
    using pn by (simp add: inLookup_def)
  have "if Mapping.is_empty (lastSelectedRange s)
      then selectedItems s' = Array (cur @ [nextItem]) \<and>
           Mapping.keys (lastSelectedRange s') = {currentItem, nextItem}
      else (let r = (if currentItem \<in> Mapping.keys (lastSelectedRange s)
                     then lastSelectedRange s else Mapping.empty)
            in if nextItem \<in> Mapping.keys r
               then selectedItems s' = Array (filter (\<lambda>x. x \<noteq> currentItem) cur) \<and>
                    lastSelectedRange s' = Mapping.delete currentItem r
               else selectedItems s' = Array (cur @ [nextItem]) \<and>
                    lastSelectedRange s' = Mapping.update nextItem True r)"
    by (auto simp: s' arrowLookup_def arrowValue_def Let_def c n ne assignTrue_def np)
  with s'(1,2) show ?thesis by simp
qed

lemma arrow_retreat_scenario:
  "\<exists>s3 s4.
      runs multiParams nestedTree
        [SelectItem ''1'' False, SelectItemFromArrowNavigation ''1'' ''2'',
         SelectItemFromArrowNavigation ''2'' ''3''] (mounted (Array [])) = Inr s3 \<and>
      selectedItems s3 = Array [''1'', ''2'', ''3''] \<and>
      Mapping.keys (lastSelectedRange s3) = {''1'', ''2'', ''3''} \<and>
      selectItemFromArrowNavigation multiParams ''3'' ''2'' s3 = Inr s4 \<and>
      selectedItems s4 = Array [''1'', ''2''] \<and>
      Mapping.keys (lastSelectedRange s4) = {''1'', ''2''}"
proof -
  have m: "multiSelect multiParams" "\<not> disableSelection multiParams"
    by (simp_all add: multiParams_def)
  have s1: "selectItem multiParams ''1'' False (mounted (Array [])) =
      Inr \<lparr>lastSelectedItem = Some ''1'', lastSelectedRange = Mapping.empty,
           selectedItems = Array [''1''],
           calls = map (\<lambda>n. (n, triple (mounted (Array [])))) (multiNotes multiParams [] [''1''])\<rparr>"
    by (simp add: selectItem_multi [OF m, of _ "[]"] mounted_def Let_def)
  show ?thesis
    by (simp add: s1 selectItemFromArrowNavigation_multi [OF m] Let_def arrowLookup_def
        arrowValue_def inLookup_def assignTrue_def objectPrototypeNames_def
        Mapping.lookup_update') auto
qed

section \<open>The claims\<close>

text \<open>
  C1. The claim fails on the code at an id that is an inherited property name. After a click
  on x, a click with the control key on \<^verbatim>\<open>toString\<close> and an arrow step from x to y, the
  value is \<^verbatim>\<open>toString\<close>, x, y and the last range lookup has the keys x and y.
  \<^verbatim>\<open>selectRange\<close> from x to y tests \<^verbatim>\<open>lastSelectedRange.current[id]\<close> on line 106, finds the
  inherited function for \<^verbatim>\<open>toString\<close> and drops that id, which is not a key of the lookup:
  the new value is x, y, where the claim keeps \<^verbatim>\<open>toString\<close> in front. The lookup is
  declared with boolean values (line 20), and the selected set of lines 22 to 33 is a
  \<^verbatim>\<open>Map\<close>, which has no such names. On ids that are not inherited names the claim holds
  (lemma \<open>selectRange_plain_ids\<close>).
\<close>

theorem selectRange_drops_inherited_name:
  "selectRange multiParams flatTree (''x'', ''y'') inheritedNameSelected =
     Inr \<lparr>lastSelectedItem = Some ''toString'',
          lastSelectedRange = getLookupFromArray [''x'', ''y''],
          selectedItems = Array [''x'', ''y''],
          calls =
            [(ItemSelectionToggle (Scalar ''toString'') False, triple inheritedNameSelected),
             (SelectedItemsChange (Array [''x'', ''y'']), triple inheritedNameSelected)]\<rparr> \<and>
   ''toString'' \<notin> Mapping.keys (lastSelectedRange inheritedNameSelected) \<and>
   filter (\<lambda>itemId. itemId \<notin> Mapping.keys (lastSelectedRange inheritedNameSelected))
     [''toString'', ''x'', ''y''] = [''toString''] \<and>
   getNonDisabledItemsInRange flatTree ''x'' ''y'' = [''x'', ''y''] \<and>
   (case runs multiParams flatTree
           [SelectItem ''x'' False, SelectItem ''toString'' True,
            SelectItemFromArrowNavigation ''x'' ''y''] (mounted (Array []))
    of Inr s \<Rightarrow> triple s = triple inheritedNameSelected
     | Inl e \<Rightarrow> False)"
proof (intro conjI)
  have m: "multiSelect multiParams" "\<not> disableSelection multiParams"
    by (simp_all add: multiParams_def)
  have v: "selectedItems inheritedNameSelected = Array [''toString'', ''x'', ''y'']"
    by (simp add: inheritedNameSelected_def)
  show range: "getNonDisabledItemsInRange flatTree ''x'' ''y'' = [''x'', ''y'']"
    by (simp add: flatTree_def getNonDisabledItemsInRange_def findOrderInTremauxTree_def
        isBetween_def getAllNavigableItems_def)
  have new: "selectRangeValue (lastSelectedRange inheritedNameSelected)
      [''toString'', ''x'', ''y''] [''x'', ''y''] = [''x'', ''y'']"
    by (simp add: selectRangeValue_def inheritedNameSelected_def inLookup_def
        objectPrototypeNames_def getLookupFromArray_def Mapping.lookup_update')
  show "selectRange multiParams flatTree (''x'', ''y'') inheritedNameSelected =
     Inr \<lparr>lastSelectedItem = Some ''toString'',
          lastSelectedRange = getLookupFromArray [''x'', ''y''],
          selectedItems = Array [''x'', ''y''],
          calls =
            [(ItemSelectionToggle (Scalar ''toString'') False, triple inheritedNameSelected),
             (SelectedItemsChange (Array [''x'', ''y'']), triple inheritedNameSelected)]\<rparr>"
    by (simp add: selectRange_multi [OF m v] Let_def range new)
      (simp add: inheritedNameSelected_def multiNotes_def multiParams_def)
  show "''toString'' \<notin> Mapping.keys (lastSelectedRange inheritedNameSelected)"
    by (simp add: inheritedNameSelected_def)
  show "filter (\<lambda>itemId. itemId \<notin> Mapping.keys (lastSelectedRange inheritedNameSelected))
     [''toString'', ''x'', ''y''] = [''toString'']"
    by (simp add: inheritedNameSelected_def)
  have m0: "selectedItems (mounted (Array [])) = Array []"
    by (simp add: mounted_def)
  have s1: "selectItem multiParams ''x'' False (mounted (Array [])) =
      Inr \<lparr>lastSelectedItem = Some ''x'', lastSelectedRange = Mapping.empty,
           selectedItems = Array [''x''],
           calls = map (\<lambda>n. (n, triple (mounted (Array [])))) (multiNotes multiParams [] [''x''])\<rparr>"
    by (simp add: selectItem_multi [OF m m0] Let_def) (simp add: mounted_def)
  show "case runs multiParams flatTree
           [SelectItem ''x'' False, SelectItem ''toString'' True,
            SelectItemFromArrowNavigation ''x'' ''y''] (mounted (Array []))
    of Inr s \<Rightarrow> triple s = triple inheritedNameSelected
     | Inl e \<Rightarrow> False"
    by (simp add: s1 selectItem_multi [OF m] selectItemFromArrowNavigation_multi [OF m] Let_def
        arrowLookup_def arrowValue_def triple_def inheritedNameSelected_def)
qed

text \<open>
  C2. The claim fails on the code at an id that is an inherited property name. After a click
  on 5 and an arrow step from 5 to 6 the value and the lookup hold 5 and 6. The arrow step from
  5 to \<^verbatim>\<open>constructor\<close> tests \<^verbatim>\<open>lastSelectedRange.current[nextItem]\<close> on line 164, finds the
  inherited function and takes the retreat branch: 5 leaves the value and the lookup, where
  the claim adds \<^verbatim>\<open>constructor\<close> to both, since it is not in the lookup. On ids that are
  not inherited names the claim holds, with its scenario (lemmas \<open>arrow_step_plain_ids\<close>
  and \<open>arrow_retreat_scenario\<close>).
\<close>

theorem arrow_step_retreats_on_inherited_name:
  "selectItemFromArrowNavigation multiParams ''5'' ''constructor'' rangeFiveSix =
     Inr \<lparr>lastSelectedItem = Some ''5'',
          lastSelectedRange = Mapping.delete ''5'' (lastSelectedRange rangeFiveSix),
          selectedItems = Array [''6''],
          calls =
            [(ItemSelectionToggle (Scalar ''5'') False,
              (Some ''5'', Mapping.delete ''5'' (lastSelectedRange rangeFiveSix),
               Array [''5'', ''6''])),
             (SelectedItemsChange (Array [''6'']),
              (Some ''5'', Mapping.delete ''5'' (lastSelectedRange rangeFiveSix),
               Array [''5'', ''6'']))]\<rparr> \<and>
   Mapping.keys (lastSelectedRange rangeFiveSix) = {''5'', ''6''} \<and>
   ''constructor'' \<notin> Mapping.keys (lastSelectedRange rangeFiveSix) \<and>
   Mapping.keys (Mapping.delete ''5'' (lastSelectedRange rangeFiveSix)) = {''6''} \<and>
   (case runs multiParams flatTree
           [SelectItem ''5'' False, SelectItemFromArrowNavigation ''5'' ''6''] (mounted (Array []))
    of Inr s \<Rightarrow> triple s = triple rangeFiveSix
     | Inl e \<Rightarrow> False)"
proof (intro conjI)
  have m: "multiSelect multiParams" "\<not> disableSelection multiParams"
    by (simp_all add: multiParams_def)
  have v: "selectedItems rangeFiveSix = Array [''5'', ''6'']"
    by (simp add: rangeFiveSix_def)
  have r: "lastSelectedRange rangeFiveSix =
      Mapping.update ''6'' True (Mapping.update ''5'' True Mapping.empty)"
    "lastSelectedItem rangeFiveSix = Some ''5''"
    by (simp_all add: rangeFiveSix_def)
  have look: "inLookup (lastSelectedRange rangeFiveSix) ''5''"
    "inLookup (lastSelectedRange rangeFiveSix) ''constructor''"
    by (simp_all add: r inLookup_def objectPrototypeNames_def Mapping.lookup_update')
  show "selectItemFromArrowNavigation multiParams ''5'' ''constructor'' rangeFiveSix =
     Inr \<lparr>lastSelectedItem = Some ''5'',
          lastSelectedRange = Mapping.delete ''5'' (lastSelectedRange rangeFiveSix),
          selectedItems = Array [''6''],
          calls =
            [(ItemSelectionToggle (Scalar ''5'') False,
              (Some ''5'', Mapping.delete ''5'' (lastSelectedRange rangeFiveSix),
               Array [''5'', ''6''])),
             (SelectedItemsChange (Array [''6'']),
              (Some ''5'', Mapping.delete ''5'' (lastSelectedRange rangeFiveSix),
               Array [''5'', ''6'']))]\<rparr>"
    by (simp add: selectItemFromArrowNavigation_multi [OF m v] Let_def arrowLookup_def
        arrowValue_def look)
      (simp add: rangeFiveSix_def multiNotes_def multiParams_def)
  show "Mapping.keys (lastSelectedRange rangeFiveSix) = {''5'', ''6''}"
    by (auto simp: r)
  show "''constructor'' \<notin> Mapping.keys (lastSelectedRange rangeFiveSix)"
    by (simp add: r)
  show "Mapping.keys (Mapping.delete ''5'' (lastSelectedRange rangeFiveSix)) = {''6''}"
    by (auto simp: r)
  have m0: "selectedItems (mounted (Array [])) = Array []"
    by (simp add: mounted_def)
  have s1: "selectItem multiParams ''5'' False (mounted (Array [])) =
      Inr \<lparr>lastSelectedItem = Some ''5'', lastSelectedRange = Mapping.empty,
           selectedItems = Array [''5''],
           calls = map (\<lambda>n. (n, triple (mounted (Array [])))) (multiNotes multiParams [] [''5''])\<rparr>"
    by (simp add: selectItem_multi [OF m m0] Let_def) (simp add: mounted_def)
  show "case runs multiParams flatTree
           [SelectItem ''5'' False, SelectItemFromArrowNavigation ''5'' ''6''] (mounted (Array []))
    of Inr s \<Rightarrow> triple s = triple rangeFiveSix
     | Inl e \<Rightarrow> False"
    by (simp add: s1 selectItemFromArrowNavigation_multi [OF m] Let_def
        arrowLookup_def arrowValue_def triple_def rangeFiveSix_def)
qed

text \<open>
  C3. As stated the claim fails: \<^verbatim>\<open>selectItem\<close> tests the flag \<open>multiple\<close> before
  it looks at the mode, so in single-select mode a set flag on the selected item a gives the
  empty array, not the scalar a.
\<close>

theorem selectItem_single_additive_counterexample:
  "selectItem singleParams ''a'' True selectedA =
     Inr \<lparr>lastSelectedItem = Some ''a'', lastSelectedRange = Mapping.empty,
          selectedItems = Array [],
          calls = [(ItemSelectionToggle (Scalar ''a'') False, (Some ''a'', Mapping.empty, Scalar ''a'')),
                   (ItemSelectionToggle (Array []) True, (Some ''a'', Mapping.empty, Scalar ''a'')),
                   (SelectedItemsChange (Array []), (Some ''a'', Mapping.empty, Scalar ''a''))]\<rparr> \<and>
   selectItem singleParams ''a'' True selectedA \<noteq> selectItem singleParams ''a'' False selectedA"
  by (simp add: selectItem_single Let_def singleParams_def selectedA_def appearsIn_def
      convertSelectedItemsToArray_def singleNotes_def strictNotEqual_def triple_def)

text \<open>
  C3, amended. In single-select mode \<^verbatim>\<open>selectItem\<close> with the flag \<open>multiple\<close> false
  replaces the value with the id, so a second click on a selected id leaves it selected.
  With the flag true \<^verbatim>\<open>selectItem\<close> does not look at the mode: the new value is the array
  form of the current value without the id when the id is selected, and with the id in front
  otherwise. Every \<^verbatim>\<open>selectItem\<close> with selection enabled, on a value that fits the mode,
  returns with the anchor set to the id and the lookup empty. With selection disabled the
  state comes back unchanged.
\<close>

theorem selectItem_amended:
  "(\<not> disableSelection params \<and> \<not> multiSelect params \<longrightarrow>
      (\<exists>s'. selectItem params itemId False s = Inr s' \<and>
         selectedItems s' = Scalar itemId \<and>
         lastSelectedItem s' = Some itemId \<and>
         lastSelectedRange s' = Mapping.empty)) \<and>
   (\<not> disableSelection params \<and> multiValueIsArray params s \<longrightarrow>
      (\<exists>s'. selectItem params itemId multiple s = Inr s' \<and>
         lastSelectedItem s' = Some itemId \<and>
         lastSelectedRange s' = Mapping.empty \<and>
         (multiple \<longrightarrow>
            selectedItems s' =
              (if appearsIn itemId (selectedItems s)
               then Array (filter (\<lambda>x. x \<noteq> itemId) (convertSelectedItemsToArray (selectedItems s)))
               else Array (itemId # convertSelectedItemsToArray (selectedItems s)))))) \<and>
   (disableSelection params \<longrightarrow> selectItem params itemId multiple s = Inr s)"
proof (intro conjI impI)
  assume "\<not> disableSelection params \<and> \<not> multiSelect params"
  then show "\<exists>s'. selectItem params itemId False s = Inr s' \<and>
         selectedItems s' = Scalar itemId \<and>
         lastSelectedItem s' = Some itemId \<and>
         lastSelectedRange s' = Mapping.empty"
    by (simp add: selectItem_single Let_def)
next
  assume a: "\<not> disableSelection params \<and> multiValueIsArray params s"
  show "\<exists>s'. selectItem params itemId multiple s = Inr s' \<and>
         lastSelectedItem s' = Some itemId \<and>
         lastSelectedRange s' = Mapping.empty \<and>
         (multiple \<longrightarrow>
            selectedItems s' =
              (if appearsIn itemId (selectedItems s)
               then Array (filter (\<lambda>x. x \<noteq> itemId) (convertSelectedItemsToArray (selectedItems s)))
               else Array (itemId # convertSelectedItemsToArray (selectedItems s))))"
  proof (cases "multiSelect params")
    case True
    with a obtain cur where cur: "selectedItems s = Array cur"
      by (auto simp: multiValueIsArray_def split: selected_items.splits)
    from a True cur show ?thesis
      by (simp add: selectItem_multi Let_def appearsIn_def convertSelectedItemsToArray_def)
  next
    case False
    with a show ?thesis
      by (simp add: selectItem_single Let_def)
  qed
next
  assume "disableSelection params"
  then show "selectItem params itemId multiple s = Inr s"
    by (simp add: selectItem_def)
qed

theorem selectItem_amended_witness:
  "(\<exists>s'. selectItem singleParams ''a'' False selectedA = Inr s' \<and>
      selectedItems s' = Scalar ''a'' \<and> lastSelectedItem s' = Some ''a'' \<and>
      lastSelectedRange s' = Mapping.empty) \<and>
   (\<exists>s'. selectItem multiParams ''2'' True afterThreeSteps = Inr s' \<and>
      lastSelectedItem s' = Some ''2'' \<and> lastSelectedRange s' = Mapping.empty \<and>
      selectedItems s' = Array [''1'', ''3'']) \<and>
   selectItem disabledParams ''a'' True selectedA = Inr selectedA"
proof -
  have h1: "\<not> disableSelection singleParams \<and> \<not> multiSelect singleParams"
    by (simp add: singleParams_def)
  have h2: "\<not> disableSelection multiParams \<and> multiValueIsArray multiParams afterThreeSteps"
    by (simp add: multiParams_def multiValueIsArray_def afterThreeSteps_def)
  have h3: "disableSelection disabledParams"
    by (simp add: disabledParams_def)
  note t1 = selectItem_amended [of singleParams "''a''" selectedA False, THEN conjunct1, THEN mp, OF h1]
  note t2 = selectItem_amended [of multiParams "''2''" afterThreeSteps True,
      THEN conjunct2, THEN conjunct1, THEN mp, OF h2]
  note t3 = selectItem_amended [of disabledParams "''a''" selectedA True,
      THEN conjunct2, THEN conjunct2, THEN mp, OF h3]
  from t2 have t2': "\<exists>s'. selectItem multiParams ''2'' True afterThreeSteps = Inr s' \<and>
      lastSelectedItem s' = Some ''2'' \<and> lastSelectedRange s' = Mapping.empty \<and>
      selectedItems s' = Array [''1'', ''3'']"
    by (simp add: afterThreeSteps_def appearsIn_def convertSelectedItemsToArray_def)
  from t1 t2' t3 show ?thesis by (intro conjI)
qed

text \<open>
  C4. In multi-select mode with selection enabled and both callbacks configured, each
  operation on an array value \<open>old\<close> tells the host, in this order: one toggle with true for
  each id of the new value that is not in \<open>old\<close>, in the order of the new value; one toggle
  with false for each id of \<open>old\<close> that is not in the new value, in the order of \<open>old\<close>;
  and one change notification that carries the new value.
\<close>

theorem notification_order:
  "multiSelect params \<and> \<not> disableSelection params \<and>
   onSelectedItemsChange params \<and> onItemSelectionToggle params \<and>
   selectedItems s = Array old \<longrightarrow>
     (\<exists>s' new. run params inst op s = Inr s' \<and> selectedItems s' = Array new \<and>
        notifications s' =
          notifications s
          @ map (\<lambda>itemId. ItemSelectionToggle (Scalar itemId) True)
              (filter (\<lambda>itemId. itemId \<notin> set old) new)
          @ map (\<lambda>itemId. ItemSelectionToggle (Scalar itemId) False)
              (filter (\<lambda>itemId. itemId \<notin> set new) old)
          @ [SelectedItemsChange (Array new)])"
proof
  assume a: "multiSelect params \<and> \<not> disableSelection params \<and>
   onSelectedItemsChange params \<and> onItemSelectionToggle params \<and>
   selectedItems s = Array old"
  then obtain s' new where r: "run params inst op s = Inr s'" "selectedItems s' = Array new"
    "notifications s' = notifications s @ multiNotes params old new"
    using run_multi_notes [of params s old inst op] by auto
  from a have "multiNotes params old new =
      map (\<lambda>itemId. ItemSelectionToggle (Scalar itemId) True)
              (filter (\<lambda>itemId. itemId \<notin> set old) new)
          @ map (\<lambda>itemId. ItemSelectionToggle (Scalar itemId) False)
              (filter (\<lambda>itemId. itemId \<notin> set new) old)
          @ [SelectedItemsChange (Array new)]"
    by (simp add: multiNotes_def)
  with r show "\<exists>s' new. run params inst op s = Inr s' \<and> selectedItems s' = Array new \<and>
        notifications s' =
          notifications s
          @ map (\<lambda>itemId. ItemSelectionToggle (Scalar itemId) True)
              (filter (\<lambda>itemId. itemId \<notin> set old) new)
          @ map (\<lambda>itemId. ItemSelectionToggle (Scalar itemId) False)
              (filter (\<lambda>itemId. itemId \<notin> set new) old)
          @ [SelectedItemsChange (Array new)]"
    by simp
qed

theorem notification_order_witness:
  "\<exists>s'. run multiParams nestedTree (SelectRange ''1.1.1'' ''2'') afterShiftClick = Inr s' \<and>
     selectedItems s' = Array [''1.1.1'', ''2''] \<and>
     notifications s' =
       [ItemSelectionToggle (Scalar ''2'') True,
        ItemSelectionToggle (Scalar ''1'') False,
        ItemSelectionToggle (Scalar ''1.1'') False,
        SelectedItemsChange (Array [''1.1.1'', ''2''])]"
proof -
  have hyp: "multiSelect multiParams \<and> \<not> disableSelection multiParams \<and>
      onSelectedItemsChange multiParams \<and> onItemSelectionToggle multiParams \<and>
      selectedItems afterShiftClick = Array [''1.1.1'', ''1'', ''1.1'']"
    by (simp add: multiParams_def afterShiftClick_def)
  note inst = notification_order
    [of multiParams afterShiftClick "[''1.1.1'', ''1'', ''1.1'']" nestedTree
      "SelectRange ''1.1.1'' ''2''", THEN mp, OF hyp]
  then obtain s' new where r:
    "run multiParams nestedTree (SelectRange ''1.1.1'' ''2'') afterShiftClick = Inr s'"
    "selectedItems s' = Array new"
    "notifications s' =
          notifications afterShiftClick
          @ map (\<lambda>itemId. ItemSelectionToggle (Scalar itemId) True)
              (filter (\<lambda>itemId. itemId \<notin> set [''1.1.1'', ''1'', ''1.1'']) new)
          @ map (\<lambda>itemId. ItemSelectionToggle (Scalar itemId) False)
              (filter (\<lambda>itemId. itemId \<notin> set new) [''1.1.1'', ''1'', ''1.1''])
          @ [SelectedItemsChange (Array new)]"
    by (elim exE conjE)
  have range: "getNonDisabledItemsInRange nestedTree ''1.1.1'' ''2'' = [''1.1.1'', ''2'']"
    by (simp add: tree_eval)
  have m: "multiSelect multiParams" "\<not> disableSelection multiParams"
    "selectedItems afterShiftClick = Array [''1.1.1'', ''1'', ''1.1'']"
    using hyp by simp_all
  from r(1) have "selectedItems s' =
      Array (selectRangeValue (lastSelectedRange afterShiftClick) [''1.1.1'', ''1'', ''1.1'']
               (getNonDisabledItemsInRange nestedTree ''1.1.1'' ''2''))"
    by (auto simp: selectRange_multi [OF m] Let_def)
  then have "selectedItems s' = Array [''1.1.1'', ''2'']"
    by (simp add: range afterShiftClick_def selectRangeValue_def inLookup_getLookupFromArray
        objectPrototypeNames_def Mapping.is_empty_def keys_getLookupFromArray)
  with r(2) have new: "new = [''1.1.1'', ''2'']" by simp
  from r(1) r(3) \<open>selectedItems s' = Array [''1.1.1'', ''2'']\<close> show ?thesis
    by (simp add: new notifications_def afterShiftClick_def)
qed

text \<open>
  C5. \<^verbatim>\<open>selectRange\<close> gives the same result for a pair of ids and for the swapped pair, in
  every state and for every two ids, present in the tree or not: the range between them is the
  same list, and it is a subsequence of the navigable items in tree order.
\<close>

theorem selectRange_symmetric:
  "selectRange params inst (a, b) s = selectRange params inst (b, a) s \<and>
   getNonDisabledItemsInRange inst a b = getNonDisabledItemsInRange inst b a \<and>
   subseq (getNonDisabledItemsInRange inst a b) (getAllNavigableItems inst)"
proof (intro conjI)
  show "selectRange params inst (a, b) s = selectRange params inst (b, a) s"
    by (simp add: selectRange_def getNonDisabledItemsInRange_sym [of inst a b])
  show "getNonDisabledItemsInRange inst a b = getNonDisabledItemsInRange inst b a"
    by (rule getNonDisabledItemsInRange_sym)
  show "subseq (getNonDisabledItemsInRange inst a b) (getAllNavigableItems inst)"
    by (simp add: getNonDisabledItemsInRange_def split: option.split prod.split)
qed

theorem selectRange_symmetric_witness:
  "selectRange multiParams nestedTree (''2'', ''1.1.1'') clickedOne =
     selectRange multiParams nestedTree (''1.1.1'', ''2'') clickedOne \<and>
   getNonDisabledItemsInRange nestedTree ''2'' ''1.1.1'' = [''1.1.1'', ''2''] \<and>
   (\<exists>s'. selectRange multiParams nestedTree (''2'', ''1.1.1'') clickedOne = Inr s' \<and>
      selectedItems s' = Array [''1'', ''1.1.1'', ''2''])"
proof -
  note sym = selectRange_symmetric [of multiParams nestedTree "''2''" "''1.1.1''" clickedOne]
  have range: "getNonDisabledItemsInRange nestedTree ''1.1.1'' ''2'' = [''1.1.1'', ''2'']"
    by (simp add: tree_eval)
  have m: "multiSelect multiParams" "\<not> disableSelection multiParams"
    "selectedItems clickedOne = Array [''1'']"
    by (simp_all add: multiParams_def clickedOne_def)
  have "\<exists>s'. selectRange multiParams nestedTree (''1.1.1'', ''2'') clickedOne = Inr s' \<and>
      selectedItems s' = Array [''1'', ''1.1.1'', ''2'']"
    by (simp add: selectRange_multi [OF m] Let_def range)
      (simp add: clickedOne_def selectRangeValue_def inLookup_getLookupFromArray
        objectPrototypeNames_def)
  with sym range show ?thesis by simp
qed

text \<open>
  C6. The arrow step at the state after a click on 1, with both callbacks configured: the
  lookup is already the new one when the callbacks run, while the value is still the old one.
  The triple the callbacks find is neither the triple before the operation nor the triple
  after it. A callback that throws would leave this triple behind. The other operations write
  the refs after \<^verbatim>\<open>setSelectedItems\<close> has returned (lemma \<open>callbacks_before_writes\<close>), and
  no operation throws on a value that fits the mode (lemma \<open>run_total\<close>).
\<close>

theorem arrow_step_callbacks_see_new_lookup:
  "selectItemFromArrowNavigation multiParams ''1'' ''2'' clickedOne =
     Inr \<lparr>lastSelectedItem = Some ''1'',
          lastSelectedRange = Mapping.update ''2'' True (Mapping.update ''1'' True Mapping.empty),
          selectedItems = Array [''1'', ''2''],
          calls =
            [(ItemSelectionToggle (Scalar ''2'') True,
              (Some ''1'', Mapping.update ''2'' True (Mapping.update ''1'' True Mapping.empty),
               Array [''1''])),
             (SelectedItemsChange (Array [''1'', ''2'']),
              (Some ''1'', Mapping.update ''2'' True (Mapping.update ''1'' True Mapping.empty),
               Array [''1'']))]\<rparr> \<and>
   (Some ''1'', Mapping.update ''2'' True (Mapping.update ''1'' True Mapping.empty), Array [''1''])
     \<noteq> triple clickedOne \<and>
   (Some ''1'', Mapping.update ''2'' True (Mapping.update ''1'' True Mapping.empty), Array [''1''])
     \<noteq> (Some ''1'', Mapping.update ''2'' True (Mapping.update ''1'' True Mapping.empty),
         Array [''1'', ''2''])"
proof -
  have m: "multiSelect multiParams" "\<not> disableSelection multiParams"
    "selectedItems clickedOne = Array [''1'']"
    by (simp_all add: multiParams_def clickedOne_def)
  show ?thesis
    by (simp add: selectItemFromArrowNavigation_multi [OF m] Let_def)
      (simp add: clickedOne_def arrowLookup_def arrowValue_def multiNotes_def multiParams_def
        triple_def update_not_empty)
qed

text \<open>
  C7. In multi-select mode with selection enabled, \<^verbatim>\<open>selectAllNavigableItems\<close> on an array
  value sets the value to the navigable items in tree order and the lookup to the one built
  from them, whose keys are exactly these ids, and keeps the anchor. When selection is
  disabled or the mode is single-select it returns the state as it was: the same triple and no
  notification.
\<close>

theorem selectAllNavigableItems_spec:
  "(multiSelect params \<and> \<not> disableSelection params \<and> selectedItems s = Array cur \<longrightarrow>
      (\<exists>s'. selectAllNavigableItems params inst s = Inr s' \<and>
         selectedItems s' = Array (getAllNavigableItems inst) \<and>
         lastSelectedRange s' = getLookupFromArray (getAllNavigableItems inst) \<and>
         Mapping.keys (lastSelectedRange s') = set (getAllNavigableItems inst) \<and>
         allTrue (lastSelectedRange s') \<and>
         lastSelectedItem s' = lastSelectedItem s)) \<and>
   (disableSelection params \<or> \<not> multiSelect params \<longrightarrow>
      selectAllNavigableItems params inst s = Inr s)"
proof (intro conjI impI)
  assume "multiSelect params \<and> \<not> disableSelection params \<and> selectedItems s = Array cur"
  then show "\<exists>s'. selectAllNavigableItems params inst s = Inr s' \<and>
         selectedItems s' = Array (getAllNavigableItems inst) \<and>
         lastSelectedRange s' = getLookupFromArray (getAllNavigableItems inst) \<and>
         Mapping.keys (lastSelectedRange s') = set (getAllNavigableItems inst) \<and>
         allTrue (lastSelectedRange s') \<and>
         lastSelectedItem s' = lastSelectedItem s"
    by (simp add: selectAllNavigableItems_multi keys_getLookupFromArray allTrue_getLookupFromArray)
next
  assume "disableSelection params \<or> \<not> multiSelect params"
  then show "selectAllNavigableItems params inst s = Inr s"
    by (simp add: selectAllNavigableItems_def)
qed

theorem selectAllNavigableItems_spec_witness:
  "(\<exists>s'. selectAllNavigableItems multiParams nestedTree clickedOne = Inr s' \<and>
      selectedItems s' = Array [''1'', ''1.1'', ''1.1.1'', ''2''] \<and>
      Mapping.keys (lastSelectedRange s') = {''1'', ''1.1'', ''1.1.1'', ''2''} \<and>
      lastSelectedItem s' = Some ''1'') \<and>
   selectAllNavigableItems disabledParams nestedTree clickedOne = Inr clickedOne \<and>
   selectAllNavigableItems singleParams nestedTree selectedA = Inr selectedA"
proof -
  have h1: "multiSelect multiParams \<and> \<not> disableSelection multiParams \<and>
      selectedItems clickedOne = Array [''1'']"
    by (simp add: multiParams_def clickedOne_def)
  have h2: "disableSelection disabledParams \<or> \<not> multiSelect disabledParams"
    by (simp add: disabledParams_def)
  have h3: "disableSelection singleParams \<or> \<not> multiSelect singleParams"
    by (simp add: singleParams_def)
  have nav: "getAllNavigableItems nestedTree = [''1'', ''1.1'', ''1.1.1'', ''2'']"
    by (simp add: tree_eval)
  note t1 = selectAllNavigableItems_spec [of multiParams clickedOne "[''1'']" nestedTree,
      THEN conjunct1, THEN mp, OF h1]
  note t2 = selectAllNavigableItems_spec [of disabledParams clickedOne "[]" nestedTree,
      THEN conjunct2, THEN mp, OF h2]
  note t3 = selectAllNavigableItems_spec [of singleParams selectedA "[]" nestedTree,
      THEN conjunct2, THEN mp, OF h3]
  from t1 obtain s' where
    "selectAllNavigableItems multiParams nestedTree clickedOne = Inr s'"
    "selectedItems s' = Array (getAllNavigableItems nestedTree)"
    "Mapping.keys (lastSelectedRange s') = set (getAllNavigableItems nestedTree)"
    "lastSelectedItem s' = lastSelectedItem clickedOne"
    by (elim exE conjE)
  then have "\<exists>s'. selectAllNavigableItems multiParams nestedTree clickedOne = Inr s' \<and>
      selectedItems s' = Array [''1'', ''1.1'', ''1.1.1'', ''2''] \<and>
      Mapping.keys (lastSelectedRange s') = {''1'', ''1.1'', ''1.1.1'', ''2''} \<and>
      lastSelectedItem s' = Some ''1''"
    by (simp add: nav clickedOne_def)
  with t2 t3 show ?thesis by (intro conjI)
qed

text \<open>
  C8. For every model value, null, a scalar or an array, and every id, \<^verbatim>\<open>isItemSelected\<close>
  holds exactly when the id appears in the value; this is so in every state, and so in the state
  an operation leaves, whether it returns or throws.
\<close>

theorem isItemSelected_iff_appears:
  "isItemSelected s itemId = appearsIn itemId (selectedItems s) \<and>
   (case run params inst op s of
      Inr s' \<Rightarrow> isItemSelected s' itemId = appearsIn itemId (selectedItems s')
    | Inl (e, s') \<Rightarrow> isItemSelected s' itemId = appearsIn itemId (selectedItems s'))"
proof -
  have agree: "isItemSelected t itemId = appearsIn itemId (selectedItems t)" for t
  proof (cases "selectedItems t")
    case Null
    then show ?thesis
      by (simp add: isItemSelected_def selectedItemsMap_def appearsIn_def)
  next
    case (Scalar x)
    then show ?thesis
      by (auto simp: isItemSelected_def selectedItemsMap_def appearsIn_def Mapping.lookup_update')
  next
    case (Array xs)
    then show ?thesis
      by (auto simp: isItemSelected_def selectedItemsMap_def appearsIn_def lookup_fold_update)
  qed
  show ?thesis
    by (simp add: agree split: sum.split prod.split)
qed

theorem isItemSelected_iff_appears_witness:
  "isItemSelected afterThreeSteps ''2'' \<and> appearsIn ''2'' (selectedItems afterThreeSteps) \<and>
   \<not> isItemSelected selectedA ''2'' \<and> \<not> appearsIn ''2'' (selectedItems selectedA) \<and>
   \<not> isItemSelected (mounted Null) ''2''"
  using isItemSelected_iff_appears [of afterThreeSteps "''2''" multiParams nestedTree "SelectAllNavigableItems"]
    isItemSelected_iff_appears [of selectedA "''2''" multiParams nestedTree "SelectAllNavigableItems"]
    isItemSelected_iff_appears [of "mounted Null" "''2''" multiParams nestedTree "SelectAllNavigableItems"]
  by (simp add: appearsIn_def afterThreeSteps_def selectedA_def mounted_def)

text \<open>
  C9. As stated the claim fails: \<^verbatim>\<open>expandSelectionRange\<close> has a guard of its own, the anchor
  (line 120). On a tree that has just mounted, in multi-select mode with selection enabled,
  it returns without a call of \<^verbatim>\<open>onSelectedItemsChange\<close>; this is the shift-click of the test
  \<^emph>\<open>should not crash when shift clicking a clean tree\<close>.
\<close>

theorem expandSelectionRange_without_anchor_counterexample:
  "call multiParams nestedTree (ExpandSelectionRange ''1'') (mounted (Array [])) =
     Inr (mounted (Array [])) \<and>
   notifications (mounted (Array [])) = [] \<and>
   \<not> disableSelection multiParams \<and> multiSelect multiParams \<and>
   onSelectedItemsChange multiParams"
  by (simp add: expandSelectionRange_def mounted_def multiParams_def notifications_def)

text \<open>
  C9, amended. With \<^verbatim>\<open>onSelectedItemsChange\<close> configured, each call that changes the
  selection (the six entries of the instance and \<^verbatim>\<open>selectRange\<close>) and is
  not stopped by a guard (selection disabled, the wrong mode, or for
  \<^verbatim>\<open>expandSelectionRange\<close> an anchor that is not set), on a value that fits the mode, returns
  and has called \<^verbatim>\<open>onSelectedItemsChange\<close> exactly once, with the value the entry computed,
  which is then the stored value. \<^verbatim>\<open>setSelectedItems\<close> itself, whenever it returns, has made
  exactly one such call with the value it was given, equal to the old value or not. In
  single-select mode a click on the selected item a calls no toggle and calls the change
  callback once with a.
\<close>

theorem aggregate_once:
  "(\<not> skipped params c s \<and> onSelectedItemsChange params \<and> multiValueIsArray params s \<longrightarrow>
      (\<exists>s' ns. call params inst c s = Inr s' \<and>
         notifications s' = notifications s @ ns \<and>
         filter isSelectedItemsChange ns = [SelectedItemsChange (computedValue params inst c s)] \<and>
         selectedItems s' = computedValue params inst c s)) \<and>
   (onSelectedItemsChange params \<and> setSelectedItems params v s = Inr t \<longrightarrow>
      (\<exists>ns. notifications t = notifications s @ ns \<and>
         filter isSelectedItemsChange ns = [SelectedItemsChange v] \<and>
         selectedItems t = v)) \<and>
   (\<exists>s'. selectItem singleParams ''a'' False selectedA = Inr s' \<and>
      selectedItems s' = selectedItems selectedA \<and>
      notifications s' = [SelectedItemsChange (Scalar ''a'')])"
proof (intro conjI impI)
  assume a: "\<not> skipped params c s \<and> onSelectedItemsChange params \<and>
    multiValueIsArray params s"
  show "\<exists>s' ns. call params inst c s = Inr s' \<and>
         notifications s' = notifications s @ ns \<and>
         filter isSelectedItemsChange ns = [SelectedItemsChange (computedValue params inst c s)] \<and>
         selectedItems s' = computedValue params inst c s"
  proof (cases "multiSelect params")
    case True
    with a obtain old where old: "selectedItems s = Array old"
      by (auto simp: multiValueIsArray_def split: selected_items.splits)
    from a have ns: "\<not> skipped params c s" by simp
    from call_multi_notes [OF True ns old, of inst]
    obtain s' new where r: "call params inst c s = Inr s'"
      "computedValue params inst c s = Array new" "selectedItems s' = Array new"
      "notifications s' = notifications s @ multiNotes params old new"
      by (elim exE conjE)
    from a have "filter isSelectedItemsChange (multiNotes params old new) =
        [SelectedItemsChange (computedValue params inst c s)]"
      by (simp add: filter_change_multiNotes r(2))
    with r show ?thesis by simp
  next
    case False
    from a have ns: "\<not> skipped params c s" by simp
    from call_single_notes [OF False ns, of inst]
    obtain s' where r: "call params inst c s = Inr s'"
      "selectedItems s' = computedValue params inst c s"
      "notifications s' =
         notifications s @ singleNotes params (selectedItems s) (computedValue params inst c s)"
      by (elim exE conjE)
    from a have "filter isSelectedItemsChange
        (singleNotes params (selectedItems s) (computedValue params inst c s)) =
        [SelectedItemsChange (computedValue params inst c s)]"
      by (simp add: filter_change_singleNotes)
    with r show ?thesis by simp
  qed
next
  assume "onSelectedItemsChange params \<and> setSelectedItems params v s = Inr t"
  then show "\<exists>ns. notifications t = notifications s @ ns \<and>
         filter isSelectedItemsChange ns = [SelectedItemsChange v] \<and>
         selectedItems t = v"
    using setSelectedItems_change [of params v s t] by simp
next
  show "\<exists>s'. selectItem singleParams ''a'' False selectedA = Inr s' \<and>
      selectedItems s' = selectedItems selectedA \<and>
      notifications s' = [SelectedItemsChange (Scalar ''a'')]"
    by (simp add: selectItem_single Let_def singleParams_def selectedA_def singleNotes_def
        strictNotEqual_def notifications_def)
qed

theorem aggregate_once_witness:
  "(\<exists>s' ns. call multiParams nestedTree (ExpandSelectionRange ''2'') clickedOne = Inr s' \<and>
      notifications s' = notifications clickedOne @ ns \<and>
      filter isSelectedItemsChange ns = [SelectedItemsChange (Array [''1'', ''1.1'', ''1.1.1'', ''2''])] \<and>
      selectedItems s' = Array [''1'', ''1.1'', ''1.1.1'', ''2'']) \<and>
   (\<exists>s' ns. call multiParams nestedTree (Direct (SelectItem ''1'' False)) clickedOne = Inr s' \<and>
      notifications s' = notifications clickedOne @ ns \<and>
      filter isSelectedItemsChange ns = [SelectedItemsChange (Array [''1''])] \<and>
      selectedItems s' = selectedItems clickedOne)"
proof -
  have h1: "\<not> skipped multiParams (ExpandSelectionRange ''2'') clickedOne \<and>
      onSelectedItemsChange multiParams \<and> multiValueIsArray multiParams clickedOne"
    by (simp add: multiParams_def multiValueIsArray_def clickedOne_def)
  have h2: "\<not> skipped multiParams (Direct (SelectItem ''1'' False)) clickedOne \<and>
      onSelectedItemsChange multiParams \<and> multiValueIsArray multiParams clickedOne"
    by (simp add: multiParams_def multiValueIsArray_def clickedOne_def)
  have v1: "computedValue multiParams nestedTree (ExpandSelectionRange ''2'') clickedOne =
      Array [''1'', ''1.1'', ''1.1.1'', ''2'']"
    by (simp add: clickedOne_def tree_eval selectRangeValue_def convertSelectedItemsToArray_def
        inLookup_getLookupFromArray objectPrototypeNames_def)
  have v2: "computedValue multiParams nestedTree (Direct (SelectItem ''1'' False)) clickedOne =
      Array [''1'']"
    by (simp add: selectItemValue_def multiParams_def)
  have c: "selectedItems clickedOne = Array [''1'']"
    by (simp add: clickedOne_def)
  note t1 = aggregate_once [of multiParams "ExpandSelectionRange ''2''" clickedOne nestedTree,
      THEN conjunct1, THEN mp, OF h1]
  note t2 = aggregate_once [of multiParams "Direct (SelectItem ''1'' False)" clickedOne nestedTree,
      THEN conjunct1, THEN mp, OF h2]
  from t1 t2 show ?thesis
    unfolding v1 v2 c by (intro conjI)
qed

text \<open>
  C10. The claim fails on the code at an id that is an inherited property name. On the lookup
  with the keys 5 and 6, the arrow step from \<^verbatim>\<open>toString\<close> to 2 tests
  \<^verbatim>\<open>lastSelectedRange.current[currentItem]\<close> on line 160 and finds the inherited function,
  so the lookup, which does not hold \<^verbatim>\<open>toString\<close>, is not reset: it ends with the keys
  5, 6 and 2, where the claim leaves the single key 2. On ids that are not inherited names
  the reset happens (lemma \<open>arrow_step_plain_ids\<close>).
\<close>

theorem arrow_step_keeps_range_on_inherited_name:
  "selectItemFromArrowNavigation multiParams ''toString'' ''2'' rangeFiveSix =
     Inr \<lparr>lastSelectedItem = Some ''5'',
          lastSelectedRange = Mapping.update ''2'' True (lastSelectedRange rangeFiveSix),
          selectedItems = Array [''5'', ''6'', ''2''],
          calls =
            [(ItemSelectionToggle (Scalar ''2'') True,
              (Some ''5'', Mapping.update ''2'' True (lastSelectedRange rangeFiveSix),
               Array [''5'', ''6''])),
             (SelectedItemsChange (Array [''5'', ''6'', ''2'']),
              (Some ''5'', Mapping.update ''2'' True (lastSelectedRange rangeFiveSix),
               Array [''5'', ''6'']))]\<rparr> \<and>
   \<not> Mapping.is_empty (lastSelectedRange rangeFiveSix) \<and>
   ''toString'' \<notin> Mapping.keys (lastSelectedRange rangeFiveSix) \<and>
   Mapping.keys (Mapping.update ''2'' True (lastSelectedRange rangeFiveSix)) =
     {''5'', ''6'', ''2''} \<and>
   Mapping.keys (Mapping.update ''2'' True (lastSelectedRange rangeFiveSix)) \<noteq> {''2''} \<and>
   (case runs multiParams flatTree
           [SelectItem ''5'' False, SelectItemFromArrowNavigation ''5'' ''6''] (mounted (Array []))
    of Inr s \<Rightarrow> triple s = triple rangeFiveSix
     | Inl e \<Rightarrow> False)"
proof (intro conjI)
  have m: "multiSelect multiParams" "\<not> disableSelection multiParams"
    by (simp_all add: multiParams_def)
  have v: "selectedItems rangeFiveSix = Array [''5'', ''6'']"
    by (simp add: rangeFiveSix_def)
  have r: "lastSelectedRange rangeFiveSix =
      Mapping.update ''6'' True (Mapping.update ''5'' True Mapping.empty)"
    by (simp add: rangeFiveSix_def)
  have look: "inLookup (lastSelectedRange rangeFiveSix) ''toString''"
    "\<not> inLookup (lastSelectedRange rangeFiveSix) ''2''"
    by (simp_all add: r inLookup_def objectPrototypeNames_def Mapping.lookup_update')
  show ne: "\<not> Mapping.is_empty (lastSelectedRange rangeFiveSix)"
    by (simp add: r)
  show "selectItemFromArrowNavigation multiParams ''toString'' ''2'' rangeFiveSix =
     Inr \<lparr>lastSelectedItem = Some ''5'',
          lastSelectedRange = Mapping.update ''2'' True (lastSelectedRange rangeFiveSix),
          selectedItems = Array [''5'', ''6'', ''2''],
          calls =
            [(ItemSelectionToggle (Scalar ''2'') True,
              (Some ''5'', Mapping.update ''2'' True (lastSelectedRange rangeFiveSix),
               Array [''5'', ''6''])),
             (SelectedItemsChange (Array [''5'', ''6'', ''2'']),
              (Some ''5'', Mapping.update ''2'' True (lastSelectedRange rangeFiveSix),
               Array [''5'', ''6'']))]\<rparr>"
    by (simp add: selectItemFromArrowNavigation_multi [OF m v] Let_def arrowLookup_def
        arrowValue_def look ne assignTrue_def)
      (simp add: rangeFiveSix_def multiNotes_def multiParams_def)
  show "''toString'' \<notin> Mapping.keys (lastSelectedRange rangeFiveSix)"
    by (simp add: r)
  show k: "Mapping.keys (Mapping.update ''2'' True (lastSelectedRange rangeFiveSix)) =
     {''5'', ''6'', ''2''}"
    by (auto simp: r)
  show "Mapping.keys (Mapping.update ''2'' True (lastSelectedRange rangeFiveSix)) \<noteq> {''2''}"
    unfolding k by auto
  have m0: "selectedItems (mounted (Array [])) = Array []"
    by (simp add: mounted_def)
  have s1: "selectItem multiParams ''5'' False (mounted (Array [])) =
      Inr \<lparr>lastSelectedItem = Some ''5'', lastSelectedRange = Mapping.empty,
           selectedItems = Array [''5''],
           calls = map (\<lambda>n. (n, triple (mounted (Array [])))) (multiNotes multiParams [] [''5''])\<rparr>"
    by (simp add: selectItem_multi [OF m m0] Let_def) (simp add: mounted_def)
  show "case runs multiParams flatTree
           [SelectItem ''5'' False, SelectItemFromArrowNavigation ''5'' ''6''] (mounted (Array []))
    of Inr s \<Rightarrow> triple s = triple rangeFiveSix
     | Inl e \<Rightarrow> False"
    by (simp add: s1 selectItemFromArrowNavigation_multi [OF m] Let_def
        arrowLookup_def arrowValue_def triple_def rangeFiveSix_def)
qed

end
